theory Spec2Isabelle
  imports Main "HOL-Library.Word" "HOL-Library.Monad_Syntax"
begin

unbundle bit_operations_syntax

section \<open>Sequence generator\<close>

text \<open>
  The program is \<^verbatim>\<open>lfsr32.c\<close>, a 32-bit linear feedback shift register used
  to self-check the L1 memory of a cluster. All generator values are \<^verbatim>\<open>uint32_t\<close>.
\<close>

type_synonym u32 = "32 word"

text \<open>
  \<^verbatim>\<open>uint32_t lfsr_byte_feedback[256]\<close>: the pre-computed feedback terms,
  in the order of the initialiser.
\<close>

definition lfsr_byte_feedback :: "u32 list" where
  "lfsr_byte_feedback = [
   0x00000000, 0x1300000B, 0x26000016, 0x3500001D,
   0x4C00002C, 0x5F000027, 0x6A00003A, 0x79000031,
   0x98000058, 0x8B000053, 0xBE00004E, 0xAD000045,
   0xD4000074, 0xC700007F, 0xF2000062, 0xE1000069,
   0x3000001F, 0x23000014, 0x16000009, 0x05000002,
   0x7C000033, 0x6F000038, 0x5A000025, 0x4900002E,
   0xA8000047, 0xBB00004C, 0x8E000051, 0x9D00005A,
   0xE400006B, 0xF7000060, 0xC200007D, 0xD1000076,
   0x6000003E, 0x73000035, 0x46000028, 0x55000023,
   0x2C000012, 0x3F000019, 0x0A000004, 0x1900000F,
   0xF8000066, 0xEB00006D, 0xDE000070, 0xCD00007B,
   0xB400004A, 0xA7000041, 0x9200005C, 0x81000057,
   0x50000021, 0x4300002A, 0x76000037, 0x6500003C,
   0x1C00000D, 0x0F000006, 0x3A00001B, 0x29000010,
   0xC8000079, 0xDB000072, 0xEE00006F, 0xFD000064,
   0x84000055, 0x9700005E, 0xA2000043, 0xB1000048,
   0xC000007C, 0xD3000077, 0xE600006A, 0xF5000061,
   0x8C000050, 0x9F00005B, 0xAA000046, 0xB900004D,
   0x58000024, 0x4B00002F, 0x7E000032, 0x6D000039,
   0x14000008, 0x07000003, 0x3200001E, 0x21000015,
   0xF0000063, 0xE3000068, 0xD6000075, 0xC500007E,
   0xBC00004F, 0xAF000044, 0x9A000059, 0x89000052,
   0x6800003B, 0x7B000030, 0x4E00002D, 0x5D000026,
   0x24000017, 0x3700001C, 0x02000001, 0x1100000A,
   0xA0000042, 0xB3000049, 0x86000054, 0x9500005F,
   0xEC00006E, 0xFF000065, 0xCA000078, 0xD9000073,
   0x3800001A, 0x2B000011, 0x1E00000C, 0x0D000007,
   0x74000036, 0x6700003D, 0x52000020, 0x4100002B,
   0x9000005D, 0x83000056, 0xB600004B, 0xA5000040,
   0xDC000071, 0xCF00007A, 0xFA000067, 0xE900006C,
   0x08000005, 0x1B00000E, 0x2E000013, 0x3D000018,
   0x44000029, 0x57000022, 0x6200003F, 0x71000034,
   0x80000057, 0x9300005C, 0xA6000041, 0xB500004A,
   0xCC00007B, 0xDF000070, 0xEA00006D, 0xF9000066,
   0x1800000F, 0x0B000004, 0x3E000019, 0x2D000012,
   0x54000023, 0x47000028, 0x72000035, 0x6100003E,
   0xB0000048, 0xA3000043, 0x9600005E, 0x85000055,
   0xFC000064, 0xEF00006F, 0xDA000072, 0xC9000079,
   0x28000010, 0x3B00001B, 0x0E000006, 0x1D00000D,
   0x6400003C, 0x77000037, 0x4200002A, 0x51000021,
   0xE0000069, 0xF3000062, 0xC600007F, 0xD5000074,
   0xAC000045, 0xBF00004E, 0x8A000053, 0x99000058,
   0x78000031, 0x6B00003A, 0x5E000027, 0x4D00002C,
   0x3400001D, 0x27000016, 0x1200000B, 0x01000000,
   0xD0000076, 0xC300007D, 0xF6000060, 0xE500006B,
   0x9C00005A, 0x8F000051, 0xBA00004C, 0xA9000047,
   0x4800002E, 0x5B000025, 0x6E000038, 0x7D000033,
   0x04000002, 0x17000009, 0x22000014, 0x3100001F,
   0x4000002B, 0x53000020, 0x6600003D, 0x75000036,
   0x0C000007, 0x1F00000C, 0x2A000011, 0x3900001A,
   0xD8000073, 0xCB000078, 0xFE000065, 0xED00006E,
   0x9400005F, 0x87000054, 0xB2000049, 0xA1000042,
   0x70000034, 0x6300003F, 0x56000022, 0x45000029,
   0x3C000018, 0x2F000013, 0x1A00000E, 0x09000005,
   0xE800006C, 0xFB000067, 0xCE00007A, 0xDD000071,
   0xA4000040, 0xB700004B, 0x82000056, 0x9100005D,
   0x20000015, 0x3300001E, 0x06000003, 0x15000008,
   0x6C000039, 0x7F000032, 0x4A00002F, 0x59000024,
   0xB800004D, 0xAB000046, 0x9E00005B, 0x8D000050,
   0xF4000061, 0xE700006A, 0xD2000077, 0xC100007C,
   0x1000000A, 0x03000001, 0x3600001C, 0x25000017,
   0x5C000026, 0x4F00002D, 0x7A000030, 0x6900003B,
   0x88000052, 0x9B000059, 0xAE000044, 0xBD00004F,
   0xC400007E, 0xD7000075, 0xE2000068, 0xF1000063]"

text \<open>
  \<^verbatim>\<open>return (lfsr >> 8) ^ lfsr_byte_feedback[lfsr & 0xff];\<close>
  The table arrives as a pointer parameter. Reading past the end of the array it points
  to is undefined in C; the model returns \<open>None\<close> there.
\<close>

definition lfsr_iter_byte :: "u32 \<Rightarrow> u32 list \<Rightarrow> u32 option" where
  "lfsr_iter_byte lfsr tbl =
     (if unat (lfsr AND 0xff) < length tbl
      then Some (drop_bit 8 lfsr XOR tbl ! unat (lfsr AND 0xff))
      else None)"

text \<open>Four byte steps, each on the result of the one before.\<close>

definition lfsr_iter_word :: "u32 \<Rightarrow> u32 list \<Rightarrow> u32 option" where
  "lfsr_iter_word lfsr tbl =
     do {
       l \<leftarrow> lfsr_iter_byte lfsr tbl;
       l \<leftarrow> lfsr_iter_byte l tbl;
       l \<leftarrow> lfsr_iter_byte l tbl;
       lfsr_iter_byte l tbl
     }"

text \<open>
  The branch of the source compiled when \<^verbatim>\<open>USE_BYTE_FEEDBACK\<close> is not defined:
  \<^verbatim>\<open>(lfsr & 1) ? ((lfsr >> 1) ^ FEEDBACK) : (lfsr >> 1)\<close>, and the loop that
  applies it eight times. The source never defines the macro \<^verbatim>\<open>FEEDBACK\<close>,
  so the single-bit step takes it as a parameter.
\<close>

definition lfsr_iter_bit :: "u32 \<Rightarrow> u32 \<Rightarrow> u32" where
  "lfsr_iter_bit fb lfsr =
     (if lfsr AND 1 \<noteq> 0 then drop_bit 1 lfsr XOR fb else drop_bit 1 lfsr)"

fun lfsr_iter_bits :: "nat \<Rightarrow> u32 \<Rightarrow> u32 \<Rightarrow> u32" where
  "lfsr_iter_bits 0 fb l = l"
| "lfsr_iter_bits (Suc i) fb l = lfsr_iter_bits i fb (lfsr_iter_bit fb l)"

definition lfsr_iter_byte_bitwise :: "u32 \<Rightarrow> u32 \<Rightarrow> u32" where
  "lfsr_iter_byte_bitwise fb lfsr = lfsr_iter_bits 8 fb lfsr"

text \<open>
  The feedback term of the polynomial the table was computed from. It is the table's
  entry for the byte \<^verbatim>\<open>0x80\<close>, whose only set bit leaves the register in the
  eighth single-bit step.
\<close>

definition FEEDBACK :: u32 where
  "FEEDBACK = 0x80000057"

text \<open>
  The generator advanced by \<open>n\<close> words from \<open>lfsr\<close> over the program's table:
  the value of the variable \<^verbatim>\<open>lfsr\<close> after \<open>n\<close> passes through a loop body
  \<^verbatim>\<open>lfsr = lfsr_iter_word(lfsr, lfsr_byte_feedback)\<close>.
\<close>

fun lfsr_advance :: "nat \<Rightarrow> u32 \<Rightarrow> u32 option" where
  "lfsr_advance 0 lfsr = Some lfsr"
| "lfsr_advance (Suc n) lfsr =
     do { l \<leftarrow> lfsr_iter_word lfsr lfsr_byte_feedback; lfsr_advance n l }"

text \<open>
  The two steps as plain functions of the state, for the fixed table: what the source
  expressions compute once the lookup is known to be in bounds.
\<close>

definition byte_step :: "u32 \<Rightarrow> u32" where
  "byte_step s = drop_bit 8 s XOR lfsr_byte_feedback ! unat (s AND 0xff)"

definition word_step :: "u32 \<Rightarrow> u32" where
  "word_step s = byte_step (byte_step (byte_step (byte_step s)))"

section \<open>Self-test protocol\<close>

text \<open>
  The compile-time parameters of the test (the macros \<^verbatim>\<open>DEFAULT_SEED\<close>,
  \<^verbatim>\<open>NB_CORES\<close>, \<^verbatim>\<open>ADDR_FIRST\<close>, \<^verbatim>\<open>ADDR_LAST\<close>) are kept
  together in a record, so that the protocol can be studied for every setting of them;
  \<open>default_config\<close> holds the values the source defines. \<^verbatim>\<open>NB_ITER\<close> is 1: the
  body of the iteration loop runs once. The core id and \<^verbatim>\<open>NB_CORES\<close> are C
  \<^verbatim>\<open>int\<close>s; sums that are stored in a \<^verbatim>\<open>uint32_t\<close> are reduced
  modulo \<open>2 ^ 32\<close> by \<open>word_of_int\<close>.
\<close>

record config =
  DEFAULT_SEED :: u32
  NB_CORES :: int
  ADDR_FIRST :: u32
  ADDR_LAST :: u32

definition default_config :: config where
  "default_config =
     \<lparr>DEFAULT_SEED = 0xdeadbeef, NB_CORES = 8,
      ADDR_FIRST = 0x10008000, ADDR_LAST = 0x10020000\<rparr>"

text \<open>
  The L1 memory, one 32-bit cell per address at which the program loads or stores a
  word. All accesses of a run are 4-byte accesses at addresses that differ by multiples
  of 4, so distinct cells never overlap.
\<close>

type_synonym memory = "u32 \<Rightarrow> u32"

text \<open>\<^verbatim>\<open>__builtin_pulp_cnt\<close>: the number of set bits of a 32-bit word.\<close>

definition pulp_cnt :: "u32 \<Rightarrow> u32" where
  "pulp_cnt x = of_nat (length (filter (bit x) [0..<32]))"

text \<open>
  The write loop of \<^verbatim>\<open>run_test\<close>:
  \<^verbatim>\<open>for(addr = ...; addr<ADDR_LAST; addr+=4*NB_CORES) { lfsr = lfsr_iter_word(...); *addr = lfsr; }\<close>
  The address is a \<^verbatim>\<open>uint32_t\<close> and wraps around; for some settings the loop
  never ends, and the result is then \<open>None\<close>.
\<close>

partial_function (option) write_loop :: "config \<Rightarrow> u32 \<Rightarrow> u32 \<Rightarrow> memory \<Rightarrow> memory option" where
  "write_loop cfg addr lfsr mem =
     (if addr < ADDR_LAST cfg then
        do {
          l \<leftarrow> lfsr_iter_word lfsr lfsr_byte_feedback;
          write_loop cfg (addr + word_of_int (4 * NB_CORES cfg)) l (mem(addr := l))
        }
      else Some mem)"

text \<open>
  The read loop:
  \<^verbatim>\<open>{ lfsr = lfsr_iter_word(...); cnt += __builtin_pulp_cnt(lfsr ^ *addr); }\<close>
\<close>

partial_function (option) read_loop :: "config \<Rightarrow> u32 \<Rightarrow> u32 \<Rightarrow> memory \<Rightarrow> u32 \<Rightarrow> u32 option" where
  "read_loop cfg addr lfsr mem cnt =
     (if addr < ADDR_LAST cfg then
        do {
          l \<leftarrow> lfsr_iter_word lfsr lfsr_byte_feedback;
          read_loop cfg (addr + word_of_int (4 * NB_CORES cfg)) l mem
            (cnt + pulp_cnt (l XOR mem addr))
        }
      else Some cnt)"

text \<open>
  \<^verbatim>\<open>run_test\<close> on the core whose \<^verbatim>\<open>pi_core_id()\<close> is \<open>cid\<close> (the
  variable \<^verbatim>\<open>id\<close> of the source), in its two halves around the first barrier.
  Before the barrier the core seeds with \<^verbatim>\<open>DEFAULT_SEED + id\<close> and writes from
  \<^verbatim>\<open>ADDR_FIRST + id * 4\<close>. After it the core replaces \<^verbatim>\<open>id\<close> by
  \<^verbatim>\<open>NB_CORES-id-1\<close> (here \<open>rid\<close>), seeds and starts the same way, and counts
  into \<open>cnt\<close>, which starts at 0.
\<close>

definition run_test_write :: "config \<Rightarrow> int \<Rightarrow> memory \<Rightarrow> memory option" where
  "run_test_write cfg cid mem =
     write_loop cfg (ADDR_FIRST cfg + word_of_int (cid * 4)) (DEFAULT_SEED cfg + word_of_int cid) mem"

definition run_test_read :: "config \<Rightarrow> int \<Rightarrow> memory \<Rightarrow> u32 option" where
  "run_test_read cfg cid mem =
     (let rid = NB_CORES cfg - cid - 1 in
      read_loop cfg (ADDR_FIRST cfg + word_of_int (rid * 4)) (DEFAULT_SEED cfg + word_of_int rid)
        mem 0)"

text \<open>
  The team of cores. Between two barriers the cores run concurrently; the model runs
  them one after the other in the order of the list \<open>ids\<close>. In the write phase no core
  reads memory, and in the read phase no core writes it; the result is the same for
  every order of the cores (lemma \<open>team_run_order\<close> below). After the second barrier
  each core adds its \<open>cnt\<close> to \<^verbatim>\<open>glob_errors\<close> inside the critical section.
\<close>

fun write_phase :: "config \<Rightarrow> int list \<Rightarrow> memory \<Rightarrow> memory option" where
  "write_phase cfg [] mem = Some mem"
| "write_phase cfg (cid # ids) mem =
     do { m \<leftarrow> run_test_write cfg cid mem; write_phase cfg ids m }"

fun read_phase :: "config \<Rightarrow> int list \<Rightarrow> memory \<Rightarrow> u32 \<Rightarrow> u32 option" where
  "read_phase cfg [] mem glob_errors = Some glob_errors"
| "read_phase cfg (cid # ids) mem glob_errors =
     do { cnt \<leftarrow> run_test_read cfg cid mem; read_phase cfg ids mem (glob_errors + cnt) }"

text \<open>
  One run of the team over the cores \<open>ids\<close>. \<open>fault\<close> is what the memory does to its
  content between the end of the write phase and the start of the read phase (the
  identity for a memory that keeps its content). The result is the memory the read
  phase saw and the final \<^verbatim>\<open>glob_errors\<close>, which starts at 0.
\<close>

definition team_run ::
  "config \<Rightarrow> int list \<Rightarrow> (memory \<Rightarrow> memory) \<Rightarrow> memory \<Rightarrow> (memory \<times> u32) option" where
  "team_run cfg ids fault mem =
     do {
       m1 \<leftarrow> write_phase cfg ids mem;
       glob_errors \<leftarrow> read_phase cfg ids (fault m1) 0;
       Some (fault m1, glob_errors)
     }"

text \<open>
  \<^verbatim>\<open>launch_cluster_task\<close>: sets \<^verbatim>\<open>glob_errors = 0\<close>, forks the team on
  all cores of the cluster (\<^verbatim>\<open>pi_cl_team_fork(0, ...)\<close>) and returns
  \<^verbatim>\<open>glob_errors\<close>. There is no other outcome: the function has no path that
  reports anything but this count, and no check of the macros before the fork.

  How many cores the cluster has is a fact of the platform, not of the source. The
  program is written for \<^verbatim>\<open>NB_CORES\<close> of them, so the team is taken to be the
  cores \<open>0, \<dots>, NB_CORES - 1\<close>. A cluster always has its core 0, and that core runs
  \<^verbatim>\<open>run_test\<close> whatever the macro says: for \<^verbatim>\<open>NB_CORES\<close> below 1 the team
  of the model is core 0 alone.
\<close>

definition cluster_cores :: "config \<Rightarrow> int list" where
  "cluster_cores cfg = [0..max 1 (NB_CORES cfg) - 1]"

definition launch_cluster_task ::
  "config \<Rightarrow> (memory \<Rightarrow> memory) \<Rightarrow> memory \<Rightarrow> (memory \<times> u32) option" where
  "launch_cluster_task cfg fault mem = team_run cfg (cluster_cores cfg) fault mem"

text \<open>
  The conditions of the specification on a configuration: word-aligned bounds, at least
  \<open>NB_CORES\<close> words in the region, at least one core.
\<close>

definition valid_config :: "config \<Rightarrow> bool" where
  "valid_config cfg \<longleftrightarrow>
     4 dvd uint (ADDR_FIRST cfg) \<and> 4 dvd uint (ADDR_LAST cfg)
     \<and> 0 < NB_CORES cfg
     \<and> uint (ADDR_FIRST cfg) + 4 * NB_CORES cfg \<le> uint (ADDR_LAST cfg)"

text \<open>
  The settings for which no address computation of a run wraps around: at least one
  core, bounds in order, and room for one stride above \<^verbatim>\<open>ADDR_LAST\<close>.
\<close>

definition no_wrap :: "config \<Rightarrow> bool" where
  "no_wrap cfg \<longleftrightarrow>
     0 < NB_CORES cfg
     \<and> uint (ADDR_FIRST cfg) \<le> uint (ADDR_LAST cfg)
     \<and> uint (ADDR_LAST cfg) + 4 * NB_CORES cfg \<le> 2 ^ 32"

text \<open>
  The header shared by the two loops,
  \<^verbatim>\<open>for(uint32_t addr=...; addr<ADDR_LAST; addr+=4*NB_CORES)\<close>, on its own: the
  addresses at which the body runs, in order.
\<close>

partial_function (option) loop_addrs :: "config \<Rightarrow> u32 \<Rightarrow> u32 list option" where
  "loop_addrs cfg addr =
     (if addr < ADDR_LAST cfg then
        do { as \<leftarrow> loop_addrs cfg (addr + word_of_int (4 * NB_CORES cfg)); Some (addr # as) }
      else Some [])"

text \<open>
  The two loops need their code equations for evaluation on concrete settings.
\<close>

declare write_loop.simps [code]
declare read_loop.simps [code]
declare loop_addrs.simps [code]

subsection \<open>Reference descriptions\<close>

text \<open>
  The \<open>k\<close>-th address of the unit \<open>c\<close> as the specification writes it,
  \<open>first + (c + k * N) * 4\<close>, and whether its position lies strictly below
  \<^verbatim>\<open>ADDR_LAST\<close>.
\<close>

definition unit_addr :: "config \<Rightarrow> int \<Rightarrow> nat \<Rightarrow> u32" where
  "unit_addr cfg c k = ADDR_FIRST cfg + word_of_int (4 * (c + NB_CORES cfg * int k))"

definition in_region :: "config \<Rightarrow> int \<Rightarrow> nat \<Rightarrow> bool" where
  "in_region cfg c k \<longleftrightarrow>
     uint (ADDR_FIRST cfg) + 4 * (c + NB_CORES cfg * int k) < uint (ADDR_LAST cfg)"

text \<open>
  The effect of the two loop bodies along a given list of addresses, with the generator
  as the plain function \<open>word_step\<close>.
\<close>

fun write_list :: "u32 list \<Rightarrow> u32 \<Rightarrow> memory \<Rightarrow> memory" where
  "write_list [] l m = m"
| "write_list (x # xs) l m = write_list xs (word_step l) (m(x := word_step l))"

fun read_list :: "u32 list \<Rightarrow> u32 \<Rightarrow> memory \<Rightarrow> u32 \<Rightarrow> u32" where
  "read_list [] l m c = c"
| "read_list (x # xs) l m c = read_list xs (word_step l) m (c + pulp_cnt (word_step l XOR m x))"

text \<open>A memory holding 0 everywhere, as a concrete starting content.\<close>

definition zero_memory :: memory where
  "zero_memory = (\<lambda>_. 0)"

text \<open>The word a finished run left at the address \<open>a\<close>.\<close>

definition word_at :: "u32 \<Rightarrow> memory \<times> u32 \<Rightarrow> u32" where
  "word_at a r = fst r a"

text \<open>
  Further settings of the macros: the scenario of the specification (one unit, a
  region of 64 words), and a region of 4 words under 8 cores.
\<close>

definition scenario_config :: config where
  "scenario_config =
     \<lparr>DEFAULT_SEED = 0xdeadbeef, NB_CORES = 1,
      ADDR_FIRST = 0x10008000, ADDR_LAST = 0x10008100\<rparr>"

definition undersized_config :: config where
  "undersized_config =
     \<lparr>DEFAULT_SEED = 0xdeadbeef, NB_CORES = 8,
      ADDR_FIRST = 0x10008000, ADDR_LAST = 0x10008010\<rparr>"

text \<open>The source's region with the number of cores set to 0.\<close>

definition zero_units_config :: config where
  "zero_units_config =
     \<lparr>DEFAULT_SEED = 0xdeadbeef, NB_CORES = 0,
      ADDR_FIRST = 0x10008000, ADDR_LAST = 0x10020000\<rparr>"

section \<open>Properties of the generator\<close>

lemma length_lfsr_byte_feedback: "length lfsr_byte_feedback = 256"
  by (simp add: lfsr_byte_feedback_def)

lemma low_byte_take_bit: "(s :: u32) AND 0xff = take_bit 8 s"
proof -
  have "(0xff :: u32) = mask 8" by (simp add: mask_eq_exp_minus_1)
  then show ?thesis by (simp add: take_bit_eq_mask)
qed

lemma unat_low_byte: "unat ((s :: u32) AND 0xff) < 256"
proof -
  have "unat (take_bit 8 s) = take_bit 8 (unat s)" by (simp add: unsigned_take_bit_eq)
  moreover have "take_bit 8 (unat s) < 2 ^ 8" by (rule take_bit_nat_less_exp)
  ultimately show ?thesis by (simp add: low_byte_take_bit)
qed

lemma lfsr_iter_byte_step: "lfsr_iter_byte s lfsr_byte_feedback = Some (byte_step s)"
  using unat_low_byte [of s]
  by (simp add: lfsr_iter_byte_def byte_step_def length_lfsr_byte_feedback)

lemma lfsr_iter_word_step: "lfsr_iter_word s lfsr_byte_feedback = Some (word_step s)"
  by (simp add: lfsr_iter_word_def word_step_def lfsr_iter_byte_step)

lemma lfsr_advance_steps: "lfsr_advance n s = Some ((word_step ^^ n) s)"
  by (induction n arbitrary: s) (simp_all add: lfsr_iter_word_step funpow_swap1)

text \<open>
  C2. For every state \<open>s\<close> and the program's 256-entry table, the byte advance returns
  exactly \<open>(s >> 8) XOR table[s & 0xFF]\<close>, and the word advance returns the result of
  that byte advance applied four times in sequence to \<open>s\<close>.
\<close>

theorem lfsr_iter_byte_word_spec:
  "lfsr_iter_byte s lfsr_byte_feedback =
     Some (drop_bit 8 s XOR lfsr_byte_feedback ! unat (s AND 0xff))
   \<and> lfsr_iter_word s lfsr_byte_feedback =
     Some (((\<lambda>x. drop_bit 8 x XOR lfsr_byte_feedback ! unat (x AND 0xff)) ^^ 4) s)"
proof -
  have "(\<lambda>x. drop_bit 8 x XOR lfsr_byte_feedback ! unat (x AND 0xff)) = byte_step"
    by (rule ext) (simp add: byte_step_def)
  moreover have "(byte_step ^^ 4) s = word_step s"
    by (simp add: word_step_def numeral_eq_Suc funpow_swap1)
  ultimately show ?thesis
    using lfsr_iter_byte_step [of s] lfsr_iter_word_step [of s]
    by (simp add: byte_step_def)
qed

subsection \<open>The table against the single-bit recurrence\<close>

lemma lfsr_iter_bit_odd:
  "lfsr_iter_bit fb l = (if odd l then drop_bit 1 l XOR fb else drop_bit 1 l)"
  by (simp add: lfsr_iter_bit_def and_one_eq odd_iff_mod_2_eq_one)

lemma lfsr_iter_bit_xor:
  "lfsr_iter_bit fb (a XOR b) = lfsr_iter_bit fb a XOR lfsr_iter_bit fb b"
  by (simp add: lfsr_iter_bit_odd even_xor_iff ac_simps)

lemma lfsr_iter_bits_xor:
  "lfsr_iter_bits n fb (a XOR b) = lfsr_iter_bits n fb a XOR lfsr_iter_bits n fb b"
  by (induction n arbitrary: a b) (simp_all add: lfsr_iter_bit_xor)

text \<open>While the low bits are zero the feedback is never applied: the step only shifts.\<close>

lemma lfsr_iter_bits_low_zero:
  "take_bit n l = 0 \<Longrightarrow> lfsr_iter_bits n fb l = drop_bit n l"
proof (induction n arbitrary: l)
  case 0
  show ?case by simp
next
  case (Suc n)
  from Suc.prems have ev: "\<not> odd l"
    by (metis even_take_bit_eq even_zero nat.simps(3))
  have "take_bit n (drop_bit 1 l) = drop_bit 1 (take_bit (Suc n) l)"
    by (simp add: drop_bit_take_bit)
  with Suc.prems have "take_bit n (drop_bit 1 l) = 0" by simp
  then have "lfsr_iter_bits n fb (drop_bit 1 l) = drop_bit n (drop_bit 1 l)"
    by (rule Suc.IH)
  with ev show ?case by (simp add: lfsr_iter_bit_odd)
qed

lemma high_part_low_zero: "take_bit 8 ((s :: u32) XOR take_bit 8 s) = 0"
  by simp

lemma high_part_drop: "drop_bit 8 ((s :: u32) XOR take_bit 8 s) = drop_bit 8 s"
  by (simp add: drop_bit_take_bit)

lemma lfsr_iter_bits_split:
  "lfsr_iter_bits 8 fb s = drop_bit 8 s XOR lfsr_iter_bits 8 fb (take_bit 8 s)"
proof -
  have "lfsr_iter_bits 8 fb s = lfsr_iter_bits 8 fb ((s XOR take_bit 8 s) XOR take_bit 8 s)"
    by (simp add: xor.assoc)
  also have "\<dots> = lfsr_iter_bits 8 fb (s XOR take_bit 8 s)
                     XOR lfsr_iter_bits 8 fb (take_bit 8 s)"
    by (rule lfsr_iter_bits_xor)
  also have "lfsr_iter_bits 8 fb (s XOR take_bit 8 s) = drop_bit 8 (s XOR take_bit 8 s)"
    by (rule lfsr_iter_bits_low_zero) (rule high_part_low_zero)
  finally show ?thesis by (simp only: high_part_drop)
qed

lemma lfsr_iter_bits_8:
  "lfsr_iter_bits 8 fb l =
     lfsr_iter_bit fb (lfsr_iter_bit fb (lfsr_iter_bit fb (lfsr_iter_bit fb
       (lfsr_iter_bit fb (lfsr_iter_bit fb (lfsr_iter_bit fb (lfsr_iter_bit fb l)))))))"
  by (simp add: numeral_eq_Suc)

text \<open>Every entry of the table is eight single-bit steps on its own index.\<close>

lemma byte_values: "map of_nat [0..<256] =
    [0x00, 0x01, 0x02, 0x03, 0x04, 0x05, 0x06, 0x07, 0x08, 0x09,
     0x0A, 0x0B, 0x0C, 0x0D, 0x0E, 0x0F, 0x10, 0x11, 0x12, 0x13,
     0x14, 0x15, 0x16, 0x17, 0x18, 0x19, 0x1A, 0x1B, 0x1C, 0x1D,
     0x1E, 0x1F, 0x20, 0x21, 0x22, 0x23, 0x24, 0x25, 0x26, 0x27,
     0x28, 0x29, 0x2A, 0x2B, 0x2C, 0x2D, 0x2E, 0x2F, 0x30, 0x31,
     0x32, 0x33, 0x34, 0x35, 0x36, 0x37, 0x38, 0x39, 0x3A, 0x3B,
     0x3C, 0x3D, 0x3E, 0x3F, 0x40, 0x41, 0x42, 0x43, 0x44, 0x45,
     0x46, 0x47, 0x48, 0x49, 0x4A, 0x4B, 0x4C, 0x4D, 0x4E, 0x4F,
     0x50, 0x51, 0x52, 0x53, 0x54, 0x55, 0x56, 0x57, 0x58, 0x59,
     0x5A, 0x5B, 0x5C, 0x5D, 0x5E, 0x5F, 0x60, 0x61, 0x62, 0x63,
     0x64, 0x65, 0x66, 0x67, 0x68, 0x69, 0x6A, 0x6B, 0x6C, 0x6D,
     0x6E, 0x6F, 0x70, 0x71, 0x72, 0x73, 0x74, 0x75, 0x76, 0x77,
     0x78, 0x79, 0x7A, 0x7B, 0x7C, 0x7D, 0x7E, 0x7F, 0x80, 0x81,
     0x82, 0x83, 0x84, 0x85, 0x86, 0x87, 0x88, 0x89, 0x8A, 0x8B,
     0x8C, 0x8D, 0x8E, 0x8F, 0x90, 0x91, 0x92, 0x93, 0x94, 0x95,
     0x96, 0x97, 0x98, 0x99, 0x9A, 0x9B, 0x9C, 0x9D, 0x9E, 0x9F,
     0xA0, 0xA1, 0xA2, 0xA3, 0xA4, 0xA5, 0xA6, 0xA7, 0xA8, 0xA9,
     0xAA, 0xAB, 0xAC, 0xAD, 0xAE, 0xAF, 0xB0, 0xB1, 0xB2, 0xB3,
     0xB4, 0xB5, 0xB6, 0xB7, 0xB8, 0xB9, 0xBA, 0xBB, 0xBC, 0xBD,
     0xBE, 0xBF, 0xC0, 0xC1, 0xC2, 0xC3, 0xC4, 0xC5, 0xC6, 0xC7,
     0xC8, 0xC9, 0xCA, 0xCB, 0xCC, 0xCD, 0xCE, 0xCF, 0xD0, 0xD1,
     0xD2, 0xD3, 0xD4, 0xD5, 0xD6, 0xD7, 0xD8, 0xD9, 0xDA, 0xDB,
     0xDC, 0xDD, 0xDE, 0xDF, 0xE0, 0xE1, 0xE2, 0xE3, 0xE4, 0xE5,
     0xE6, 0xE7, 0xE8, 0xE9, 0xEA, 0xEB, 0xEC, 0xED, 0xEE, 0xEF,
     0xF0, 0xF1, 0xF2, 0xF3, 0xF4, 0xF5, 0xF6, 0xF7, 0xF8, 0xF9,
     0xFA, 0xFB, 0xFC, 0xFD, 0xFE, 0xFF :: u32]"
  by (simp add: upt_conv_Cons)

lemma table_from_recurrence:
  "map (lfsr_iter_byte_bitwise FEEDBACK)
    [0x00, 0x01, 0x02, 0x03, 0x04, 0x05, 0x06, 0x07, 0x08, 0x09,
     0x0A, 0x0B, 0x0C, 0x0D, 0x0E, 0x0F, 0x10, 0x11, 0x12, 0x13,
     0x14, 0x15, 0x16, 0x17, 0x18, 0x19, 0x1A, 0x1B, 0x1C, 0x1D,
     0x1E, 0x1F, 0x20, 0x21, 0x22, 0x23, 0x24, 0x25, 0x26, 0x27,
     0x28, 0x29, 0x2A, 0x2B, 0x2C, 0x2D, 0x2E, 0x2F, 0x30, 0x31,
     0x32, 0x33, 0x34, 0x35, 0x36, 0x37, 0x38, 0x39, 0x3A, 0x3B,
     0x3C, 0x3D, 0x3E, 0x3F, 0x40, 0x41, 0x42, 0x43, 0x44, 0x45,
     0x46, 0x47, 0x48, 0x49, 0x4A, 0x4B, 0x4C, 0x4D, 0x4E, 0x4F,
     0x50, 0x51, 0x52, 0x53, 0x54, 0x55, 0x56, 0x57, 0x58, 0x59,
     0x5A, 0x5B, 0x5C, 0x5D, 0x5E, 0x5F, 0x60, 0x61, 0x62, 0x63,
     0x64, 0x65, 0x66, 0x67, 0x68, 0x69, 0x6A, 0x6B, 0x6C, 0x6D,
     0x6E, 0x6F, 0x70, 0x71, 0x72, 0x73, 0x74, 0x75, 0x76, 0x77,
     0x78, 0x79, 0x7A, 0x7B, 0x7C, 0x7D, 0x7E, 0x7F, 0x80, 0x81,
     0x82, 0x83, 0x84, 0x85, 0x86, 0x87, 0x88, 0x89, 0x8A, 0x8B,
     0x8C, 0x8D, 0x8E, 0x8F, 0x90, 0x91, 0x92, 0x93, 0x94, 0x95,
     0x96, 0x97, 0x98, 0x99, 0x9A, 0x9B, 0x9C, 0x9D, 0x9E, 0x9F,
     0xA0, 0xA1, 0xA2, 0xA3, 0xA4, 0xA5, 0xA6, 0xA7, 0xA8, 0xA9,
     0xAA, 0xAB, 0xAC, 0xAD, 0xAE, 0xAF, 0xB0, 0xB1, 0xB2, 0xB3,
     0xB4, 0xB5, 0xB6, 0xB7, 0xB8, 0xB9, 0xBA, 0xBB, 0xBC, 0xBD,
     0xBE, 0xBF, 0xC0, 0xC1, 0xC2, 0xC3, 0xC4, 0xC5, 0xC6, 0xC7,
     0xC8, 0xC9, 0xCA, 0xCB, 0xCC, 0xCD, 0xCE, 0xCF, 0xD0, 0xD1,
     0xD2, 0xD3, 0xD4, 0xD5, 0xD6, 0xD7, 0xD8, 0xD9, 0xDA, 0xDB,
     0xDC, 0xDD, 0xDE, 0xDF, 0xE0, 0xE1, 0xE2, 0xE3, 0xE4, 0xE5,
     0xE6, 0xE7, 0xE8, 0xE9, 0xEA, 0xEB, 0xEC, 0xED, 0xEE, 0xEF,
     0xF0, 0xF1, 0xF2, 0xF3, 0xF4, 0xF5, 0xF6, 0xF7, 0xF8, 0xF9,
     0xFA, 0xFB, 0xFC, 0xFD, 0xFE, 0xFF]
   = lfsr_byte_feedback"
  by (simp add: lfsr_iter_byte_bitwise_def lfsr_iter_bits_8 lfsr_iter_bit_def FEEDBACK_def
      lfsr_byte_feedback_def)

lemma table_entry:
  assumes "n < 256"
  shows "lfsr_byte_feedback ! n = lfsr_iter_byte_bitwise FEEDBACK (of_nat n)"
proof -
  have "lfsr_byte_feedback = map (lfsr_iter_byte_bitwise FEEDBACK) (map of_nat [0..<256])"
    by (simp only: byte_values table_from_recurrence)
  then have "lfsr_byte_feedback ! n
      = map (lfsr_iter_byte_bitwise FEEDBACK) (map of_nat [0..<256]) ! n"
    by simp
  also from assms have "\<dots> = lfsr_iter_byte_bitwise FEEDBACK (of_nat n)"
    by simp
  finally show ?thesis .
qed

text \<open>
  C3. For every state \<open>s\<close>, the table-based byte advance equals eight iterations of the
  single-bit recurrence with the feedback term the table was computed from.
\<close>

theorem lfsr_iter_byte_table_equivalence:
  "lfsr_iter_byte s lfsr_byte_feedback = Some (lfsr_iter_byte_bitwise FEEDBACK s)"
proof -
  have "lfsr_byte_feedback ! unat (s AND 0xff)
      = lfsr_iter_byte_bitwise FEEDBACK (of_nat (unat (s AND 0xff)))"
    by (rule table_entry) (rule unat_low_byte)
  then have "lfsr_byte_feedback ! unat (s AND 0xff)
      = lfsr_iter_bits 8 FEEDBACK (take_bit 8 s)"
    by (simp add: lfsr_iter_byte_bitwise_def low_byte_take_bit)
  then have "byte_step s = lfsr_iter_bits 8 FEEDBACK s"
    by (simp add: byte_step_def lfsr_iter_bits_split [of FEEDBACK s])
  then show ?thesis
    by (simp add: lfsr_iter_byte_step lfsr_iter_byte_bitwise_def)
qed

text \<open>
  The feedback term is determined by the table: no other value of the macro makes the
  two branches of the source agree.
\<close>

lemma FEEDBACK_unique:
  assumes "\<forall>s. lfsr_iter_byte s lfsr_byte_feedback = Some (lfsr_iter_byte_bitwise fb s)"
  shows "fb = FEEDBACK"
proof -
  from assms have "lfsr_iter_byte 0x80 lfsr_byte_feedback
      = Some (lfsr_iter_byte_bitwise fb 0x80)"
    by blast
  moreover have "lfsr_iter_byte 0x80 lfsr_byte_feedback = Some 0x80000057"
    by (simp add: lfsr_iter_byte_def lfsr_byte_feedback_def)
  moreover have "lfsr_iter_byte_bitwise fb 0x80 = fb"
    by (simp add: lfsr_iter_byte_bitwise_def lfsr_iter_bits_8 lfsr_iter_bit_def)
  ultimately show ?thesis by (simp add: FEEDBACK_def)
qed

text \<open>
  C9. The state 0 is a fixed point: the byte advance and the word advance map 0 to 0,
  and a generator seeded with 0 stays at 0 after any number of word advances.
\<close>

theorem lfsr_zero_fixed_point:
  "lfsr_iter_byte 0 lfsr_byte_feedback = Some 0
   \<and> lfsr_iter_word 0 lfsr_byte_feedback = Some 0
   \<and> lfsr_advance n 0 = Some 0"
proof -
  have b: "lfsr_iter_byte 0 lfsr_byte_feedback = Some 0"
    by (simp add: lfsr_iter_byte_def lfsr_byte_feedback_def)
  then have w: "lfsr_iter_word 0 lfsr_byte_feedback = Some 0"
    by (simp add: lfsr_iter_word_def)
  have "lfsr_advance n 0 = Some 0"
    by (induction n) (simp_all add: w)
  with b w show ?thesis by simp
qed

text \<open>
  C10. For every state \<open>s\<close> the index \<open>s & 0xFF\<close> is below 256, the length of the table, so
  the lookup is in bounds and both advances return a value for every state.
\<close>

theorem lfsr_iter_total:
  "unat (s AND 0xff) < 256
   \<and> length lfsr_byte_feedback = 256
   \<and> (\<exists>l. lfsr_iter_byte s lfsr_byte_feedback = Some l)
   \<and> (\<exists>l. lfsr_iter_word s lfsr_byte_feedback = Some l)"
  using unat_low_byte [of s]
  by (simp add: length_lfsr_byte_feedback lfsr_iter_byte_step lfsr_iter_word_step)

section \<open>Properties of the protocol\<close>

subsection \<open>Address arithmetic without wrap-around\<close>

lemma launch_team:
  assumes "no_wrap cfg"
  shows "launch_cluster_task cfg fault mem = team_run cfg [0..NB_CORES cfg - 1] fault mem"
proof -
  from assms have "max 1 (NB_CORES cfg) = NB_CORES cfg" by (simp add: no_wrap_def)
  then show ?thesis by (simp add: launch_cluster_task_def cluster_cores_def)
qed

lemma uint_plus_offset:
  assumes "0 \<le> z" and "uint (a :: u32) + z < 2 ^ 32"
  shows "uint (a + word_of_int z) = uint a + z"
proof -
  have "0 \<le> uint a" by simp
  with assms have "z < 2 ^ 32" by linarith
  with assms(1) have "uint (word_of_int z :: u32) = z"
    by (simp add: uint_word_of_int take_bit_eq_mod)
  moreover have "uint (a + word_of_int z) = (uint a + uint (word_of_int z :: u32)) mod 2 ^ 32"
    by (simp add: uint_word_ariths)
  ultimately show ?thesis using assms by simp
qed

lemma stride_step:
  assumes "no_wrap cfg" and "addr < ADDR_LAST cfg"
  shows "uint (addr + word_of_int (4 * NB_CORES cfg)) = uint addr + 4 * NB_CORES cfg"
proof (rule uint_plus_offset)
  from assms(1) show "0 \<le> 4 * NB_CORES cfg" by (simp add: no_wrap_def)
  from assms(2) have "uint addr < uint (ADDR_LAST cfg)" by (simp add: word_less_def)
  with assms(1) show "uint addr + 4 * NB_CORES cfg < 2 ^ 32" by (simp add: no_wrap_def)
qed

lemma loop_addrs_closed:
  assumes "no_wrap cfg"
  shows "\<exists>n. (\<forall>k. (k < n) = (uint a + int k * (4 * NB_CORES cfg) < uint (ADDR_LAST cfg)))
           \<and> loop_addrs cfg a
               = Some (map (\<lambda>k. a + word_of_int (int k * (4 * NB_CORES cfg))) [0..<n])"
proof (induction "nat (uint (ADDR_LAST cfg) - uint a)" arbitrary: a rule: less_induct)
  case less
  let ?S = "4 * NB_CORES cfg"
  let ?L = "uint (ADDR_LAST cfg)"
  from assms have Spos: "0 < ?S" by (simp add: no_wrap_def)
  show ?case
  proof (cases "a < ADDR_LAST cfg")
    case False
    then have ge: "?L \<le> uint a" by (simp add: word_less_def)
    have "\<forall>k. (k < (0::nat)) = (uint a + int k * ?S < ?L)"
    proof
      fix k :: nat
      from Spos have "0 \<le> int k * ?S" by simp
      with ge show "(k < (0::nat)) = (uint a + int k * ?S < ?L)" by simp
    qed
    moreover from False have "loop_addrs cfg a = Some []"
      by (subst loop_addrs.simps) simp
    ultimately show ?thesis by (intro exI [of _ 0]) simp
  next
    case True
    let ?a' = "a + word_of_int ?S"
    from True have lt: "uint a < ?L" by (simp add: word_less_def)
    have step: "uint ?a' = uint a + ?S" using assms True by (rule stride_step)
    with Spos lt have "nat (?L - uint ?a') < nat (?L - uint a)" by simp
    from less [OF this] obtain n where
      n: "\<forall>k. (k < n) = (uint ?a' + int k * ?S < ?L)"
      and l: "loop_addrs cfg ?a' = Some (map (\<lambda>k. ?a' + word_of_int (int k * ?S)) [0..<n])"
      by blast
    have "\<forall>k. (k < Suc n) = (uint a + int k * ?S < ?L)"
    proof
      fix k
      show "(k < Suc n) = (uint a + int k * ?S < ?L)"
      proof (cases k)
        case 0
        with lt show ?thesis by simp
      next
        case (Suc j)
        with n [rule_format, of j] step show ?thesis by (simp add: algebra_simps)
      qed
    qed
    moreover have "loop_addrs cfg a = Some (map (\<lambda>k. a + word_of_int (int k * ?S)) [0..<Suc n])"
    proof -
      have "loop_addrs cfg a = Some (a # map (\<lambda>k. ?a' + word_of_int (int k * ?S)) [0..<n])"
        using True l by (subst loop_addrs.simps) simp
      moreover have "map (\<lambda>k. a + word_of_int (int k * ?S)) [0..<Suc n]
          = a # map (\<lambda>k. ?a' + word_of_int (int k * ?S)) [0..<n]"
        by (simp only: map_upt_Suc) (simp add: algebra_simps)
      ultimately show ?thesis by simp
    qed
    ultimately show ?thesis by blast
  qed
qed


lemma loop_addrs_Nil:
  "loop_addrs cfg a = Some [] \<Longrightarrow> \<not> a < ADDR_LAST cfg"
  by (subst (asm) loop_addrs.simps) (auto split: if_splits bind_splits)

lemma loop_addrs_Cons:
  "loop_addrs cfg a = Some (x # xs) \<Longrightarrow>
     a < ADDR_LAST cfg \<and> x = a \<and> loop_addrs cfg (a + word_of_int (4 * NB_CORES cfg)) = Some xs"
  by (subst (asm) loop_addrs.simps) (auto split: if_splits bind_splits)

lemma write_loop_list:
  "loop_addrs cfg a = Some as \<Longrightarrow> write_loop cfg a l m = Some (write_list as l m)"
proof (induction as arbitrary: a l m)
  case Nil
  then have "\<not> a < ADDR_LAST cfg" by (rule loop_addrs_Nil)
  then show ?case by (subst write_loop.simps) simp
next
  case (Cons x xs)
  from loop_addrs_Cons [OF Cons.prems]
  have a: "a < ADDR_LAST cfg" and x: "x = a"
    and r: "loop_addrs cfg (a + word_of_int (4 * NB_CORES cfg)) = Some xs"
    by simp_all
  from Cons.IH [OF r] a x show ?case
    by (subst write_loop.simps) (simp add: lfsr_iter_word_step fun_upd_def)
qed

lemma read_loop_list:
  "loop_addrs cfg a = Some as \<Longrightarrow> read_loop cfg a l m c = Some (read_list as l m c)"
proof (induction as arbitrary: a l c)
  case Nil
  then have "\<not> a < ADDR_LAST cfg" by (rule loop_addrs_Nil)
  then show ?case by (subst read_loop.simps) simp
next
  case (Cons x xs)
  from loop_addrs_Cons [OF Cons.prems]
  have a: "a < ADDR_LAST cfg" and x: "x = a"
    and r: "loop_addrs cfg (a + word_of_int (4 * NB_CORES cfg)) = Some xs"
    by simp_all
  from Cons.IH [OF r] a x show ?case
    by (subst read_loop.simps) (simp add: lfsr_iter_word_step)
qed

lemma write_list_other: "x \<notin> set as \<Longrightarrow> write_list as l m x = m x"
  by (induction as arbitrary: l m) simp_all

lemma write_list_nth:
  "distinct as \<Longrightarrow> k < length as \<Longrightarrow> write_list as l m (as ! k) = (word_step ^^ Suc k) l"
proof (induction as arbitrary: l m k)
  case Nil
  then show ?case by simp
next
  case (Cons x xs)
  show ?case
  proof (cases k)
    case 0
    with Cons.prems show ?thesis by (simp add: write_list_other)
  next
    case (Suc j)
    with Cons.prems have "write_list xs (word_step l) (m(x := word_step l)) (xs ! j)
        = (word_step ^^ Suc j) (word_step l)"
      by (intro Cons.IH) simp_all
    with Suc show ?thesis by (simp add: funpow_swap1)
  qed
qed

lemma read_list_sum:
  "read_list as l m c
     = c + (\<Sum>k<length as. pulp_cnt ((word_step ^^ Suc k) l XOR m (as ! k)))"
proof (induction as arbitrary: l c)
  case Nil
  show ?case by simp
next
  case (Cons x xs)
  have "(\<Sum>k<length (x # xs). pulp_cnt ((word_step ^^ Suc k) l XOR m ((x # xs) ! k)))
      = pulp_cnt (word_step l XOR m x)
        + (\<Sum>k<length xs. pulp_cnt ((word_step ^^ Suc k) (word_step l) XOR m (xs ! k)))"
    by (simp add: sum.lessThan_Suc_shift funpow_swap1 del: sum.lessThan_Suc)
  with Cons.IH [of "word_step l" "c + pulp_cnt (word_step l XOR m x)"]
  show ?case by (simp add: add.assoc)
qed


lemma no_wrap_start:
  assumes "no_wrap cfg" and "0 \<le> c" and "c < NB_CORES cfg"
  shows "uint (ADDR_FIRST cfg + word_of_int (c * 4)) = uint (ADDR_FIRST cfg) + c * 4"
proof (rule uint_plus_offset)
  from assms(2) show "0 \<le> c * 4" by simp
  from assms show "uint (ADDR_FIRST cfg) + c * 4 < 2 ^ 32" by (simp add: no_wrap_def)
qed

lemma unit_addr_stride:
  "ADDR_FIRST cfg + word_of_int (c * 4) + word_of_int (int k * (4 * NB_CORES cfg))
     = unit_addr cfg c k"
proof -
  have "c * 4 + int k * (4 * NB_CORES cfg) = 4 * (c + NB_CORES cfg * int k)"
    by (simp add: algebra_simps)
  then have "word_of_int (c * 4) + word_of_int (int k * (4 * NB_CORES cfg))
      = (word_of_int (4 * (c + NB_CORES cfg * int k)) :: u32)"
    by (simp only: of_int_add [symmetric])
  then show ?thesis by (simp add: unit_addr_def add.assoc)
qed

lemma unit_seq:
  assumes "no_wrap cfg" and "0 \<le> c" and "c < NB_CORES cfg"
  shows "\<exists>n. (\<forall>k. (k < n) = in_region cfg c k)
           \<and> loop_addrs cfg (ADDR_FIRST cfg + word_of_int (c * 4))
               = Some (map (unit_addr cfg c) [0..<n])"
proof -
  let ?a = "ADDR_FIRST cfg + word_of_int (c * 4)"
  from loop_addrs_closed [OF assms(1), of ?a] obtain n where
    n: "\<forall>k. (k < n) = (uint ?a + int k * (4 * NB_CORES cfg) < uint (ADDR_LAST cfg))"
    and l: "loop_addrs cfg ?a
              = Some (map (\<lambda>k. ?a + word_of_int (int k * (4 * NB_CORES cfg))) [0..<n])"
    by blast
  have "\<forall>k. (k < n) = in_region cfg c k"
  proof
    fix k
    have "uint ?a = uint (ADDR_FIRST cfg) + c * 4"
      by (rule no_wrap_start [OF assms])
    then have "uint ?a + int k * (4 * NB_CORES cfg)
        = uint (ADDR_FIRST cfg) + 4 * (c + NB_CORES cfg * int k)"
      by (simp only: algebra_simps)
    with n [rule_format, of k] show "(k < n) = in_region cfg c k"
      by (simp only: in_region_def)
  qed
  moreover from l have "loop_addrs cfg ?a = Some (map (unit_addr cfg c) [0..<n])"
    by (simp only: unit_addr_stride)
  ultimately show ?thesis by blast
qed

lemma unit_addr_uint:
  assumes "no_wrap cfg" and "0 \<le> c" and "in_region cfg c k"
  shows "uint (unit_addr cfg c k) = uint (ADDR_FIRST cfg) + 4 * (c + NB_CORES cfg * int k)"
  unfolding unit_addr_def
proof (rule uint_plus_offset)
  from assms(1) have "0 \<le> NB_CORES cfg * int k" by (simp add: no_wrap_def)
  with assms(2) show "0 \<le> 4 * (c + NB_CORES cfg * int k)" by simp
  have "uint (ADDR_LAST cfg) < 2 ^ 32" using uint_bounded [of "ADDR_LAST cfg"] by simp
  with assms(3) show "uint (ADDR_FIRST cfg) + 4 * (c + NB_CORES cfg * int k) < 2 ^ 32"
    by (simp add: in_region_def)
qed

lemma unit_addr_inj:
  assumes "no_wrap cfg"
    and c: "0 \<le> c" "c < NB_CORES cfg" and c': "0 \<le> c'" "c' < NB_CORES cfg"
    and r: "in_region cfg c k" "in_region cfg c' k'"
    and eq: "unit_addr cfg c k = unit_addr cfg c' k'"
  shows "c = c' \<and> k = k'"
proof -
  let ?N = "NB_CORES cfg"
  from assms(1) have N: "0 < ?N" by (simp add: no_wrap_def)
  from eq have "uint (unit_addr cfg c k) = uint (unit_addr cfg c' k')" by simp
  then have e: "c + ?N * int k = c' + ?N * int k'"
    by (simp add: unit_addr_uint [OF assms(1)] c c' r)
  then have "(c + ?N * int k) mod ?N = (c' + ?N * int k') mod ?N" by simp
  with c c' have cc: "c = c'" by simp
  with e N have "int k = int k'" by simp
  with cc show ?thesis by simp
qed

lemma unit_addr_cover:
  assumes "no_wrap cfg"
    and "ADDR_FIRST cfg \<le> x" and "x < ADDR_LAST cfg"
    and "4 dvd (uint x - uint (ADDR_FIRST cfg))"
  shows "\<exists>c k. 0 \<le> c \<and> c < NB_CORES cfg \<and> in_region cfg c k \<and> x = unit_addr cfg c k"
proof -
  let ?N = "NB_CORES cfg"
  let ?F = "uint (ADDR_FIRST cfg)"
  from assms(1) have N: "0 < ?N" by (simp add: no_wrap_def)
  from assms(4) obtain w where w: "uint x - ?F = 4 * w" by (auto simp: dvd_def)
  from assms(2) have "?F \<le> uint x" by (simp add: word_le_def)
  with w have w0: "0 \<le> w" by simp
  define c where "c = w mod ?N"
  define k where "k = nat (w div ?N)"
  from N have c0: "0 \<le> c" and cN: "c < ?N" by (simp_all add: c_def)
  from w0 N have "int k = w div ?N" by (simp add: k_def pos_imp_zdiv_nonneg_iff)
  then have ck: "c + ?N * int k = w" by (simp add: c_def)
  with w have ux: "uint x = ?F + 4 * (c + ?N * int k)" by simp
  from assms(3) have "uint x < uint (ADDR_LAST cfg)" by (simp add: word_less_def)
  with ux have reg: "in_region cfg c k" by (simp add: in_region_def)
  from ux have "uint x = uint (unit_addr cfg c k)"
    by (simp add: unit_addr_uint [OF assms(1) c0 reg])
  then have "x = unit_addr cfg c k" by (simp only: word_uint_eq_iff)
  with c0 cN reg show ?thesis by blast
qed


subsection \<open>One unit, and the write phase of the team\<close>

lemma unit_addrs_distinct:
  assumes "no_wrap cfg" and "0 \<le> c" and "c < NB_CORES cfg"
    and n: "\<forall>k. (k < n) = in_region cfg c k"
  shows "distinct (map (unit_addr cfg c) [0..<n])"
proof -
  have "inj_on (unit_addr cfg c) (set [0..<n])"
  proof (rule inj_onI)
    fix j k
    assume "j \<in> set [0..<n]" and "k \<in> set [0..<n]"
      and eq: "unit_addr cfg c j = unit_addr cfg c k"
    with n have "in_region cfg c j" and "in_region cfg c k" by simp_all
    with unit_addr_inj [OF assms(1) assms(2,3) assms(2,3) _ _ eq] show "j = k" by simp
  qed
  then show ?thesis by (simp add: distinct_map)
qed

lemma unit_write:
  assumes "no_wrap cfg" and "0 \<le> c" and "c < NB_CORES cfg"
  shows "\<exists>m'. run_test_write cfg c m = Some m'
     \<and> (\<forall>k. in_region cfg c k \<longrightarrow>
          m' (unit_addr cfg c k) = (word_step ^^ Suc k) (DEFAULT_SEED cfg + word_of_int c))
     \<and> (\<forall>x. (\<forall>k. in_region cfg c k \<longrightarrow> x \<noteq> unit_addr cfg c k) \<longrightarrow> m' x = m x)"
proof -
  from unit_seq [OF assms] obtain n where
    n: "\<forall>k. (k < n) = in_region cfg c k"
    and l: "loop_addrs cfg (ADDR_FIRST cfg + word_of_int (c * 4))
              = Some (map (unit_addr cfg c) [0..<n])"
    by blast
  let ?as = "map (unit_addr cfg c) [0..<n]"
  let ?s = "DEFAULT_SEED cfg + word_of_int c"
  let ?m' = "write_list ?as ?s m"
  have d: "distinct ?as" using assms n by (rule unit_addrs_distinct)
  have run: "run_test_write cfg c m = Some ?m'"
    unfolding run_test_write_def by (rule write_loop_list [OF l])
  have val: "\<forall>k. in_region cfg c k \<longrightarrow> ?m' (unit_addr cfg c k) = (word_step ^^ Suc k) ?s"
  proof (intro allI impI)
    fix k
    assume "in_region cfg c k"
    with n have k: "k < n" by simp
    then have "?m' (?as ! k) = (word_step ^^ Suc k) ?s"
      by (intro write_list_nth [OF d]) simp
    with k show "?m' (unit_addr cfg c k) = (word_step ^^ Suc k) ?s" by simp
  qed
  have frame: "\<forall>x. (\<forall>k. in_region cfg c k \<longrightarrow> x \<noteq> unit_addr cfg c k) \<longrightarrow> ?m' x = m x"
  proof (intro allI impI)
    fix x
    assume "\<forall>k. in_region cfg c k \<longrightarrow> x \<noteq> unit_addr cfg c k"
    with n have "x \<notin> set ?as" by auto
    then show "?m' x = m x" by (rule write_list_other)
  qed
  from run val frame show ?thesis by blast
qed

lemma unit_read:
  assumes "no_wrap cfg" and "0 \<le> r" and "r < NB_CORES cfg"
  shows "\<exists>n. (\<forall>k. (k < n) = in_region cfg r k)
     \<and> read_loop cfg (ADDR_FIRST cfg + word_of_int (r * 4)) (DEFAULT_SEED cfg + word_of_int r) m 0
       = Some (\<Sum>k<n. pulp_cnt ((word_step ^^ Suc k) (DEFAULT_SEED cfg + word_of_int r)
                                  XOR m (unit_addr cfg r k)))"
proof -
  from unit_seq [OF assms] obtain n where
    n: "\<forall>k. (k < n) = in_region cfg r k"
    and l: "loop_addrs cfg (ADDR_FIRST cfg + word_of_int (r * 4))
              = Some (map (unit_addr cfg r) [0..<n])"
    by blast
  let ?s = "DEFAULT_SEED cfg + word_of_int r"
  have "read_loop cfg (ADDR_FIRST cfg + word_of_int (r * 4)) ?s m 0
      = Some (read_list (map (unit_addr cfg r) [0..<n]) ?s m 0)"
    by (rule read_loop_list [OF l])
  also have "read_list (map (unit_addr cfg r) [0..<n]) ?s m 0
      = (\<Sum>k<n. pulp_cnt ((word_step ^^ Suc k) ?s XOR m (unit_addr cfg r k)))"
    by (simp add: read_list_sum)
  finally show ?thesis using n by blast
qed

lemma write_phase_mem:
  assumes "no_wrap cfg"
  shows "(\<forall>c\<in>set ids. 0 \<le> c \<and> c < NB_CORES cfg) \<Longrightarrow>
    \<exists>m1. write_phase cfg ids m = Some m1
      \<and> (\<forall>c k. c \<in> set ids \<longrightarrow> in_region cfg c k \<longrightarrow>
            m1 (unit_addr cfg c k) = (word_step ^^ Suc k) (DEFAULT_SEED cfg + word_of_int c))
      \<and> (\<forall>x. (\<forall>c k. c \<in> set ids \<longrightarrow> in_region cfg c k \<longrightarrow> x \<noteq> unit_addr cfg c k)
            \<longrightarrow> m1 x = m x)"
proof (induction ids arbitrary: m)
  case Nil
  show ?case by simp
next
  case (Cons c ids)
  from Cons.prems have c: "0 \<le> c" "c < NB_CORES cfg"
    and ids: "\<forall>c\<in>set ids. 0 \<le> c \<and> c < NB_CORES cfg" by simp_all
  from unit_write [OF assms c, of m] obtain m' where
    run: "run_test_write cfg c m = Some m'"
    and val: "\<And>k. in_region cfg c k \<Longrightarrow>
          m' (unit_addr cfg c k) = (word_step ^^ Suc k) (DEFAULT_SEED cfg + word_of_int c)"
    and frame: "\<And>x. (\<forall>k. in_region cfg c k \<longrightarrow> x \<noteq> unit_addr cfg c k) \<Longrightarrow> m' x = m x"
    by blast
  from Cons.IH [OF ids, of m'] obtain m1 where
    ph: "write_phase cfg ids m' = Some m1"
    and val1: "\<And>d k. d \<in> set ids \<Longrightarrow> in_region cfg d k \<Longrightarrow>
          m1 (unit_addr cfg d k) = (word_step ^^ Suc k) (DEFAULT_SEED cfg + word_of_int d)"
    and frame1: "\<And>x. (\<forall>d k. d \<in> set ids \<longrightarrow> in_region cfg d k \<longrightarrow> x \<noteq> unit_addr cfg d k)
          \<Longrightarrow> m1 x = m' x"
    by blast
  have "write_phase cfg (c # ids) m = Some m1" using run ph by simp
  moreover have "\<forall>d k. d \<in> set (c # ids) \<longrightarrow> in_region cfg d k \<longrightarrow>
      m1 (unit_addr cfg d k) = (word_step ^^ Suc k) (DEFAULT_SEED cfg + word_of_int d)"
  proof (intro allI impI)
    fix d k
    assume d: "d \<in> set (c # ids)" and r: "in_region cfg d k"
    show "m1 (unit_addr cfg d k) = (word_step ^^ Suc k) (DEFAULT_SEED cfg + word_of_int d)"
    proof (cases "d \<in> set ids")
      case True
      then show ?thesis using r by (rule val1)
    next
      case False
      with d have dc: "d = c" by simp
      have "\<forall>e j. e \<in> set ids \<longrightarrow> in_region cfg e j \<longrightarrow> unit_addr cfg c k \<noteq> unit_addr cfg e j"
      proof (intro allI impI notI)
        fix e j
        assume e: "e \<in> set ids" and rj: "in_region cfg e j"
          and eq: "unit_addr cfg c k = unit_addr cfg e j"
        from ids e have "0 \<le> e" "e < NB_CORES cfg" by simp_all
        with unit_addr_inj [OF assms c _ _ _ rj eq] r dc have "c = e" by simp
        with e False dc show False by simp
      qed
      then have "m1 (unit_addr cfg c k) = m' (unit_addr cfg c k)" by (rule frame1)
      with val [of k] r dc show ?thesis by simp
    qed
  qed
  moreover have "\<forall>x. (\<forall>d k. d \<in> set (c # ids) \<longrightarrow> in_region cfg d k \<longrightarrow> x \<noteq> unit_addr cfg d k)
      \<longrightarrow> m1 x = m x"
  proof (intro allI impI)
    fix x
    assume a: "\<forall>d k. d \<in> set (c # ids) \<longrightarrow> in_region cfg d k \<longrightarrow> x \<noteq> unit_addr cfg d k"
    then have "m1 x = m' x" by (intro frame1) simp
    moreover from a have "m' x = m x" by (intro frame) simp
    ultimately show "m1 x = m x" by simp
  qed
  ultimately show ?case by blast
qed


lemma read_phase_sum:
  "(\<forall>c\<in>set ids. run_test_read cfg c m = Some (f c)) \<Longrightarrow>
     read_phase cfg ids m g = Some (g + sum_list (map f ids))"
  by (induction ids arbitrary: g) (simp_all add: add.assoc)

lemma sum_list_single:
  "distinct ids \<Longrightarrow>
     sum_list (map (\<lambda>c. if c = c1 then v else 0) ids) = (if c1 \<in> set ids then v else (0 :: u32))"
  by (induction ids) auto

lemma unit_read_run:
  assumes "no_wrap cfg" and "0 \<le> cid" and "cid < NB_CORES cfg"
  shows "\<exists>n. (\<forall>k. (k < n) = in_region cfg (NB_CORES cfg - cid - 1) k)
     \<and> run_test_read cfg cid m
       = Some (\<Sum>k<n. pulp_cnt
            ((word_step ^^ Suc k) (DEFAULT_SEED cfg + word_of_int (NB_CORES cfg - cid - 1))
              XOR m (unit_addr cfg (NB_CORES cfg - cid - 1) k)))"
proof -
  from assms have "0 \<le> NB_CORES cfg - cid - 1" and "NB_CORES cfg - cid - 1 < NB_CORES cfg"
    by simp_all
  from unit_read [OF assms(1) this, of m] show ?thesis
    by (simp add: run_test_read_def Let_def)
qed

lemma cores_in_range: "c \<in> set [0..N - 1] \<longleftrightarrow> 0 \<le> c \<and> c < (N :: int)"
  by auto

lemma pulp_cnt_card: "unat (pulp_cnt d) = card {i. bit d i}"
proof -
  have "set (filter (bit d) [0..<32]) = {i. bit d i}"
    using bit_imp_le_length [of d] by auto
  moreover have "distinct (filter (bit d) [0..<32])" by simp
  ultimately have l: "length (filter (bit d) [0..<32]) = card {i. bit d i}"
    using distinct_card by metis
  have "length (filter (bit d) [0..<32]) \<le> length [0..<32]" by (rule length_filter_le)
  then have "length (filter (bit d) [0..<32]) \<le> 32" by simp
  then have "unat (of_nat (length (filter (bit d) [0..<32])) :: u32)
      = length (filter (bit d) [0..<32])"
    by (simp add: unat_of_nat)
  with l show ?thesis by (simp add: pulp_cnt_def)
qed

lemma pulp_cnt_0: "pulp_cnt 0 = 0"
  by (simp add: pulp_cnt_def)

lemma pulp_cnt_1: "pulp_cnt 1 = 1"
proof -
  have "{i. bit (1 :: u32) i} = {0}" by (auto simp: bit_1_iff)
  then have "unat (pulp_cnt 1) = 1" by (simp add: pulp_cnt_card)
  then show ?thesis by (simp add: word_unat_eq_iff)
qed

lemma no_wrap_default: "no_wrap default_config"
  by (simp add: no_wrap_def default_config_def)



lemma pulp_cnt_flip: "pulp_cnt (v XOR (v XOR d)) = pulp_cnt d"
proof -
  have "v XOR (v XOR d) = d" by (simp flip: xor.assoc)
  then show ?thesis by simp
qed

lemma no_wrap_scenario: "no_wrap scenario_config"
  by (simp add: no_wrap_def scenario_config_def)

lemma no_wrap_undersized: "no_wrap undersized_config"
  by (simp add: no_wrap_def undersized_config_def)

text \<open>
  What a launch does when nothing wraps around: every unit's write loop leaves its
  generator values in memory, every core's read loop returns a count, and the result is
  the memory read and the sum of these counts.
\<close>

lemma launch_result:
  assumes "no_wrap cfg"
  shows "\<exists>m1 cnt. write_phase cfg [0..NB_CORES cfg - 1] mem = Some m1
     \<and> (\<forall>c k. 0 \<le> c \<and> c < NB_CORES cfg \<and> in_region cfg c k \<longrightarrow>
           Some (m1 (unit_addr cfg c k))
             = lfsr_advance (Suc k) (DEFAULT_SEED cfg + word_of_int c))
     \<and> (\<forall>c. 0 \<le> c \<and> c < NB_CORES cfg \<longrightarrow> run_test_read cfg c (fault m1) = Some (cnt c))
     \<and> launch_cluster_task cfg fault mem
         = Some (fault m1, sum_list (map cnt [0..NB_CORES cfg - 1]))"
proof -
  let ?N = "NB_CORES cfg"
  have rng: "\<forall>c\<in>set [0..?N - 1]. 0 \<le> c \<and> c < ?N" by (simp add: cores_in_range)
  from write_phase_mem [OF assms rng, of mem] obtain m1 where
    ph: "write_phase cfg [0..?N - 1] mem = Some m1"
    and val: "\<And>c k. c \<in> set [0..?N - 1] \<Longrightarrow> in_region cfg c k \<Longrightarrow>
          m1 (unit_addr cfg c k) = (word_step ^^ Suc k) (DEFAULT_SEED cfg + word_of_int c)"
    by blast
  have written: "\<forall>c k. 0 \<le> c \<and> c < ?N \<and> in_region cfg c k \<longrightarrow>
      Some (m1 (unit_addr cfg c k)) = lfsr_advance (Suc k) (DEFAULT_SEED cfg + word_of_int c)"
  proof (intro allI impI)
    fix c k
    assume a: "0 \<le> c \<and> c < ?N \<and> in_region cfg c k"
    then have "c \<in> set [0..?N - 1]" by simp
    from val [OF this] a
    show "Some (m1 (unit_addr cfg c k))
        = lfsr_advance (Suc k) (DEFAULT_SEED cfg + word_of_int c)"
      by (simp only: lfsr_advance_steps)
  qed
  have "\<forall>c\<in>set [0..?N - 1]. \<exists>v. run_test_read cfg c (fault m1) = Some v"
  proof
    fix c
    assume "c \<in> set [0..?N - 1]"
    then have "0 \<le> c" "c < ?N" by simp_all
    from unit_read_run [OF assms this, of "fault m1"]
    show "\<exists>v. run_test_read cfg c (fault m1) = Some v" by blast
  qed
  then have "\<exists>f. \<forall>c\<in>set [0..?N - 1]. run_test_read cfg c (fault m1) = Some (f c)"
    by (rule bchoice)
  then obtain cnt where
    f: "\<forall>c\<in>set [0..?N - 1]. run_test_read cfg c (fault m1) = Some (cnt c)"
    by blast
  then have counts: "\<forall>c. 0 \<le> c \<and> c < ?N \<longrightarrow> run_test_read cfg c (fault m1) = Some (cnt c)"
    by (simp add: cores_in_range)
  have "read_phase cfg [0..?N - 1] (fault m1) 0 = Some (0 + sum_list (map cnt [0..?N - 1]))"
    using f by (rule read_phase_sum)
  with ph have res: "launch_cluster_task cfg fault mem
      = Some (fault m1, sum_list (map cnt [0..?N - 1]))"
    by (simp add: launch_team [OF assms(1)] team_run_def)
  from ph written counts res show ?thesis
    by (intro exI [of _ m1] exI [of _ cnt] conjI)
qed

subsection \<open>No cores: the stride is 0\<close>

text \<open>
  With \<^verbatim>\<open>NB_CORES\<close> set to 0 the loops add \<^verbatim>\<open>4*NB_CORES = 0\<close> to the
  address: a write loop that starts below \<^verbatim>\<open>ADDR_LAST\<close> never leaves it.
\<close>

lemma write_loop_returns:
  assumes "write_loop cfg addr lfsr mem = Some y"
  shows "\<not> (NB_CORES cfg = 0 \<and> addr < ADDR_LAST cfg)"
proof (rule write_loop.raw_induct
    [where P = "\<lambda>cfg addr lfsr mem y. \<not> (NB_CORES cfg = 0 \<and> addr < ADDR_LAST cfg)",
      OF _ assms])
  fix wl :: "config \<Rightarrow> u32 \<Rightarrow> u32 \<Rightarrow> memory \<Rightarrow> memory option"
  fix cfg addr lfsr mem y
  assume ih: "\<And>cfg addr lfsr mem y. wl cfg addr lfsr mem = Some y \<Longrightarrow>
      \<not> (NB_CORES cfg = 0 \<and> addr < ADDR_LAST cfg)"
    and eq: "(if addr < ADDR_LAST cfg then
        lfsr_iter_word lfsr lfsr_byte_feedback \<bind>
          (\<lambda>l. wl cfg (addr + word_of_int (4 * NB_CORES cfg)) l (mem(addr := l)))
      else Some mem) = Some y"
  show "\<not> (NB_CORES cfg = 0 \<and> addr < ADDR_LAST cfg)"
  proof
    assume a: "NB_CORES cfg = 0 \<and> addr < ADDR_LAST cfg"
    with eq obtain l where "wl cfg addr l (mem(addr := l)) = Some y"
      by (auto simp: bind_eq_Some_conv)
    from ih [OF this] a show False by simp
  qed
qed

lemma run_test_write_zero_units:
  assumes "NB_CORES cfg = 0" and "ADDR_FIRST cfg + word_of_int (cid * 4) < ADDR_LAST cfg"
  shows "run_test_write cfg cid mem = None"
proof (cases "run_test_write cfg cid mem")
  case None
  then show ?thesis .
next
  case (Some y)
  then have "write_loop cfg (ADDR_FIRST cfg + word_of_int (cid * 4))
      (DEFAULT_SEED cfg + word_of_int cid) mem = Some y"
    by (simp add: run_test_write_def)
  from write_loop_returns [OF this] assms show ?thesis by simp
qed

lemma write_phase_stuck:
  assumes "cid \<in> set ids" and "\<And>m. run_test_write cfg cid m = None"
  shows "write_phase cfg ids mem = None"
  using assms(1)
proof (induction ids arbitrary: mem)
  case Nil
  then show ?case by simp
next
  case (Cons c ids)
  show ?case
  proof (cases "run_test_write cfg c mem")
    case None
    then show ?thesis by simp
  next
    case (Some m)
    with assms(2) [of mem] have "c \<noteq> cid" by auto
    with Cons.prems have "cid \<in> set ids" by simp
    then have "write_phase cfg ids m = None" by (rule Cons.IH)
    with Some show ?thesis by simp
  qed
qed

lemma team_run_zero_units:
  assumes "NB_CORES cfg = 0" and "ADDR_FIRST cfg < ADDR_LAST cfg" and "0 \<in> set ids"
  shows "team_run cfg ids fault mem = None"
proof -
  from assms(2) have "ADDR_FIRST cfg + word_of_int (0 * 4) < ADDR_LAST cfg" by simp
  with assms(1) have "\<And>m. run_test_write cfg 0 m = None"
    by (rule run_test_write_zero_units)
  with assms(3) have "write_phase cfg ids mem = None" by (rule write_phase_stuck)
  then show ?thesis by (simp add: team_run_def)
qed

subsection \<open>Independence of the order of the cores\<close>

lemma write_phase_order:
  assumes "no_wrap cfg"
    and a: "\<forall>c\<in>set ids. 0 \<le> c \<and> c < NB_CORES cfg"
    and s: "set ids' = set ids"
  shows "write_phase cfg ids' mem = write_phase cfg ids mem"
proof -
  from a s have a': "\<forall>c\<in>set ids'. 0 \<le> c \<and> c < NB_CORES cfg" by simp
  let ?v = "\<lambda>c k. (word_step ^^ Suc k) (DEFAULT_SEED cfg + word_of_int c)"
  from write_phase_mem [OF assms(1) a, of mem] obtain m1 where
    p: "write_phase cfg ids mem = Some m1"
    and v: "\<And>c k. c \<in> set ids \<Longrightarrow> in_region cfg c k \<Longrightarrow> m1 (unit_addr cfg c k) = ?v c k"
    and f: "\<And>x. (\<forall>c k. c \<in> set ids \<longrightarrow> in_region cfg c k \<longrightarrow> x \<noteq> unit_addr cfg c k)
          \<Longrightarrow> m1 x = mem x"
    by blast
  from write_phase_mem [OF assms(1) a', of mem] obtain m2 where
    p': "write_phase cfg ids' mem = Some m2"
    and v': "\<And>c k. c \<in> set ids' \<Longrightarrow> in_region cfg c k \<Longrightarrow> m2 (unit_addr cfg c k) = ?v c k"
    and f': "\<And>x. (\<forall>c k. c \<in> set ids' \<longrightarrow> in_region cfg c k \<longrightarrow> x \<noteq> unit_addr cfg c k)
          \<Longrightarrow> m2 x = mem x"
    by blast
  have "m2 x = m1 x" for x
  proof (cases "\<exists>c k. c \<in> set ids \<and> in_region cfg c k \<and> x = unit_addr cfg c k")
    case True
    then obtain c k where "c \<in> set ids" "in_region cfg c k" "x = unit_addr cfg c k" by blast
    with v [of c k] v' [of c k] s show ?thesis by simp
  next
    case False
    then have n: "\<forall>c k. c \<in> set ids \<longrightarrow> in_region cfg c k \<longrightarrow> x \<noteq> unit_addr cfg c k"
      by blast
    with s have "\<forall>c k. c \<in> set ids' \<longrightarrow> in_region cfg c k \<longrightarrow> x \<noteq> unit_addr cfg c k"
      by simp
    then have "m2 x = mem x" by (rule f')
    moreover from n have "m1 x = mem x" by (rule f)
    ultimately show ?thesis by simp
  qed
  then have "m2 = m1" by (rule ext)
  with p p' show ?thesis by simp
qed

text \<open>
  The order in which the model runs the cores of a phase does not matter: every list
  that holds each core \<open>0, \<dots>, NB_CORES - 1\<close> exactly once gives the result of the launch.
\<close>

lemma team_run_order:
  assumes "no_wrap cfg"
    and d: "distinct ids" and s: "set ids = {0..NB_CORES cfg - 1}"
  shows "team_run cfg ids fault mem = launch_cluster_task cfg fault mem"
proof -
  let ?N = "NB_CORES cfg"
  let ?all = "[0..?N - 1]"
  have rng: "\<forall>c\<in>set ?all. 0 \<le> c \<and> c < ?N" by (simp add: cores_in_range)
  from s have s': "set ids = set ?all" by simp
  have w: "write_phase cfg ids mem = write_phase cfg ?all mem"
    using assms(1) rng s' by (rule write_phase_order)
  from write_phase_mem [OF assms(1) rng, of mem] obtain m1 where
    m1: "write_phase cfg ?all mem = Some m1" by blast
  have "\<forall>c\<in>set ?all. \<exists>v. run_test_read cfg c (fault m1) = Some v"
  proof
    fix c
    assume "c \<in> set ?all"
    then have "0 \<le> c" "c < ?N" by simp_all
    from unit_read_run [OF assms(1) this, of "fault m1"]
    show "\<exists>v. run_test_read cfg c (fault m1) = Some v" by blast
  qed
  then have "\<exists>f. \<forall>c\<in>set ?all. run_test_read cfg c (fault m1) = Some (f c)"
    by (rule bchoice)
  then obtain f where
    f: "\<forall>c\<in>set ?all. run_test_read cfg c (fault m1) = Some (f c)"
    by blast
  with s' have f': "\<forall>c\<in>set ids. run_test_read cfg c (fault m1) = Some (f c)" by simp
  have "sum_list (map f ids) = sum f (set ids)"
    using d by (rule sum_list_distinct_conv_sum_set)
  moreover have "sum_list (map f ?all) = sum f (set ?all)"
    by (rule sum_list_distinct_conv_sum_set) simp
  ultimately have "sum_list (map f ids) = sum_list (map f ?all)" using s' by simp
  with read_phase_sum [OF f, of 0] read_phase_sum [OF f', of 0]
  have "read_phase cfg ids (fault m1) 0 = read_phase cfg ?all (fault m1) 0" by simp
  with w m1 show ?thesis
    by (simp add: launch_team [OF assms(1)] team_run_def)
qed

section \<open>Claims about the protocol\<close>

text \<open>
  C1. For every setting without wrap-around and every core \<open>cid\<close> in \<open>0..N-1\<close>: when the
  memory keeps what the write phase of all cores stored, the read loop of core \<open>cid\<close>
  counts exactly 0 mismatches, and the run of the whole team returns the accumulator 0.
\<close>

theorem roundtrip_no_errors:
  assumes "no_wrap cfg" and "0 \<le> cid" and "cid < NB_CORES cfg"
  shows "\<exists>m1. write_phase cfg [0..NB_CORES cfg - 1] mem = Some m1
     \<and> run_test_read cfg cid m1 = Some 0
     \<and> launch_cluster_task cfg (\<lambda>m. m) mem = Some (m1, 0)"
proof -
  let ?N = "NB_CORES cfg"
  have rng: "\<forall>c\<in>set [0..?N - 1]. 0 \<le> c \<and> c < ?N" by (simp add: cores_in_range)
  from write_phase_mem [OF assms(1) rng, of mem] obtain m1 where
    ph: "write_phase cfg [0..?N - 1] mem = Some m1"
    and val: "\<And>c k. c \<in> set [0..?N - 1] \<Longrightarrow> in_region cfg c k \<Longrightarrow>
          m1 (unit_addr cfg c k) = (word_step ^^ Suc k) (DEFAULT_SEED cfg + word_of_int c)"
    by blast
  have zero: "run_test_read cfg c m1 = Some 0" if c: "0 \<le> c" "c < ?N" for c
  proof -
    let ?r = "?N - c - 1"
    from unit_read_run [OF assms(1) c, of m1] obtain n where
      n: "\<forall>k. (k < n) = in_region cfg ?r k"
      and run: "run_test_read cfg c m1
        = Some (\<Sum>k<n. pulp_cnt ((word_step ^^ Suc k) (DEFAULT_SEED cfg + word_of_int ?r)
                                    XOR m1 (unit_addr cfg ?r k)))"
      by blast
    from c have r: "?r \<in> set [0..?N - 1]" by simp
    have "(\<Sum>k<n. pulp_cnt ((word_step ^^ Suc k) (DEFAULT_SEED cfg + word_of_int ?r)
                                    XOR m1 (unit_addr cfg ?r k))) = (\<Sum>k<n. 0)"
    proof (rule sum.cong)
      fix k
      assume "k \<in> {..<n}"
      with n have "in_region cfg ?r k" by simp
      from val [OF r this]
      show "pulp_cnt ((word_step ^^ Suc k) (DEFAULT_SEED cfg + word_of_int ?r)
              XOR m1 (unit_addr cfg ?r k)) = 0"
        by (simp add: pulp_cnt_0)
    qed simp
    with run show ?thesis by simp
  qed
  then have "\<forall>c\<in>set [0..?N - 1]. run_test_read cfg c m1 = Some ((\<lambda>_. 0) c)"
    by (simp add: cores_in_range)
  then have "read_phase cfg [0..?N - 1] m1 0 = Some (0 + sum_list (map (\<lambda>_. 0) [0..?N - 1]))"
    by (rule read_phase_sum)
  then have "read_phase cfg [0..?N - 1] m1 0 = Some 0" by simp
  with ph have "launch_cluster_task cfg (\<lambda>m. m) mem = Some (m1, 0)"
    by (simp add: launch_team [OF assms(1)] team_run_def)
  with ph zero [OF assms(2,3)] show ?thesis by blast
qed

theorem roundtrip_no_errors_witness:
  "no_wrap default_config \<and> (0 :: int) \<le> 3 \<and> 3 < NB_CORES default_config
   \<and> (\<exists>m1. write_phase default_config [0..NB_CORES default_config - 1] zero_memory = Some m1
     \<and> run_test_read default_config 3 m1 = Some 0
     \<and> launch_cluster_task default_config (\<lambda>m. m) zero_memory = Some (m1, 0))"
proof -
  have c: "(0 :: int) \<le> 3" "3 < NB_CORES default_config"
    by (simp_all add: default_config_def)
  from roundtrip_no_errors [OF no_wrap_default c, of zero_memory] no_wrap_default c
  show ?thesis by (intro conjI)
qed



text \<open>
  C5. In the write phase the unit \<open>cid\<close> (in \<open>0..N-1\<close>) starts its generator at
  \<open>DEFAULT_SEED + cid\<close> and visits \<open>first + (cid + k * N) * 4\<close> for exactly the \<open>k\<close> whose
  position lies strictly below \<open>last\<close>; the word it leaves at the \<open>k\<close>-th address is the
  generator advanced \<open>k + 1\<close> words from the seed (advance first, then store), and no
  other cell changes.
\<close>

theorem write_phase_unit:
  assumes "no_wrap cfg" and "0 \<le> cid" and "cid < NB_CORES cfg"
  shows "\<exists>n m'. (\<forall>k. (k < n) = in_region cfg cid k)
     \<and> run_test_write cfg cid mem = Some m'
     \<and> (\<forall>k<n. Some (m' (unit_addr cfg cid k))
                  = lfsr_advance (Suc k) (DEFAULT_SEED cfg + word_of_int cid))
     \<and> (\<forall>x. (\<forall>k<n. x \<noteq> unit_addr cfg cid k) \<longrightarrow> m' x = mem x)"
proof -
  from unit_seq [OF assms] obtain n where n: "\<forall>k. (k < n) = in_region cfg cid k"
    by blast
  from unit_write [OF assms, of mem] obtain m' where
    run: "run_test_write cfg cid mem = Some m'"
    and val: "\<And>k. in_region cfg cid k \<Longrightarrow>
          m' (unit_addr cfg cid k) = (word_step ^^ Suc k) (DEFAULT_SEED cfg + word_of_int cid)"
    and frame: "\<And>x. (\<forall>k. in_region cfg cid k \<longrightarrow> x \<noteq> unit_addr cfg cid k) \<Longrightarrow> m' x = mem x"
    by blast
  have "\<forall>k<n. Some (m' (unit_addr cfg cid k))
                  = lfsr_advance (Suc k) (DEFAULT_SEED cfg + word_of_int cid)"
    using n val by (simp only: lfsr_advance_steps) simp
  moreover have "\<forall>x. (\<forall>k<n. x \<noteq> unit_addr cfg cid k) \<longrightarrow> m' x = mem x"
    using n frame by simp
  ultimately show ?thesis using n run by blast
qed

theorem write_phase_unit_witness:
  "no_wrap default_config \<and> (0 :: int) \<le> 3 \<and> 3 < NB_CORES default_config \<and>
   (\<exists>n m'. (\<forall>k. (k < n) = in_region default_config 3 k)
     \<and> run_test_write default_config 3 zero_memory = Some m'
     \<and> (\<forall>k<n. Some (m' (unit_addr default_config 3 k))
                  = lfsr_advance (Suc k) (DEFAULT_SEED default_config + word_of_int 3))
     \<and> (\<forall>x. (\<forall>k<n. x \<noteq> unit_addr default_config 3 k) \<longrightarrow> m' x = zero_memory x))"
proof -
  have c: "(0 :: int) \<le> 3" "3 < NB_CORES default_config"
    by (simp_all add: default_config_def)
  from write_phase_unit [OF no_wrap_default c, of zero_memory] no_wrap_default c
  show ?thesis by (intro conjI)
qed

text \<open>
  C6. In the read phase the core \<open>cid\<close> works as \<open>rid = N - cid - 1\<close>: it seeds with
  \<open>DEFAULT_SEED + rid\<close> and walks the addresses of unit \<open>rid\<close>; the value \<open>vs k\<close> it
  derives at the \<open>k\<close>-th address is the generator advanced \<open>k + 1\<close> words, the very
  value the write loop of unit \<open>rid\<close> stores there; and its counter ends as the sum over
  these addresses of the population count of \<open>vs k XOR\<close> the word read.
\<close>

theorem read_phase_unit:
  assumes "no_wrap cfg" and "0 \<le> cid" and "cid < NB_CORES cfg"
  shows "\<exists>n vs m'.
       (\<forall>k. (k < n) = in_region cfg (NB_CORES cfg - cid - 1) k)
     \<and> (\<forall>k<n. lfsr_advance (Suc k) (DEFAULT_SEED cfg + word_of_int (NB_CORES cfg - cid - 1))
                  = Some (vs k))
     \<and> run_test_read cfg cid mem
         = Some (\<Sum>k<n. pulp_cnt (vs k XOR mem (unit_addr cfg (NB_CORES cfg - cid - 1) k)))
     \<and> run_test_write cfg (NB_CORES cfg - cid - 1) mem0 = Some m'
     \<and> (\<forall>k<n. m' (unit_addr cfg (NB_CORES cfg - cid - 1) k) = vs k)"
proof -
  let ?r = "NB_CORES cfg - cid - 1"
  let ?vs = "\<lambda>k. (word_step ^^ Suc k) (DEFAULT_SEED cfg + word_of_int ?r)"
  from assms have r: "0 \<le> ?r" "?r < NB_CORES cfg" by simp_all
  from unit_read_run [OF assms, of mem] obtain n where
    n: "\<forall>k. (k < n) = in_region cfg ?r k"
    and run: "run_test_read cfg cid mem
        = Some (\<Sum>k<n. pulp_cnt (?vs k XOR mem (unit_addr cfg ?r k)))"
    by blast
  from unit_write [OF assms(1) r, of mem0] obtain m' where
    w: "run_test_write cfg ?r mem0 = Some m'"
    and val: "\<And>k. in_region cfg ?r k \<Longrightarrow> m' (unit_addr cfg ?r k) = ?vs k"
    by blast
  have adv: "\<forall>k<n. lfsr_advance (Suc k) (DEFAULT_SEED cfg + word_of_int ?r) = Some (?vs k)"
    by (simp only: lfsr_advance_steps) simp
  have vals: "\<forall>k<n. m' (unit_addr cfg ?r k) = ?vs k"
    using n val by simp
  from n adv run w vals show ?thesis
    by (intro exI [of _ n] exI [of _ ?vs] exI [of _ m'] conjI)
qed

theorem read_phase_unit_witness:
  "no_wrap default_config \<and> (0 :: int) \<le> 3 \<and> 3 < NB_CORES default_config \<and>
   (\<exists>n vs m'.
       (\<forall>k. (k < n) = in_region default_config (NB_CORES default_config - 3 - 1) k)
     \<and> (\<forall>k<n. lfsr_advance (Suc k)
                   (DEFAULT_SEED default_config + word_of_int (NB_CORES default_config - 3 - 1))
                  = Some (vs k))
     \<and> run_test_read default_config 3 zero_memory
         = Some (\<Sum>k<n. pulp_cnt (vs k XOR
                  zero_memory (unit_addr default_config (NB_CORES default_config - 3 - 1) k)))
     \<and> run_test_write default_config (NB_CORES default_config - 3 - 1) zero_memory = Some m'
     \<and> (\<forall>k<n. m' (unit_addr default_config (NB_CORES default_config - 3 - 1) k) = vs k))"
proof -
  have c: "(0 :: int) \<le> 3" "3 < NB_CORES default_config"
    by (simp_all add: default_config_def)
  from read_phase_unit [OF no_wrap_default c, of zero_memory zero_memory] no_wrap_default c
  show ?thesis by (intro conjI)
qed

text \<open>
  C7. When the memory flips, between the two phases, the bits \<open>d\<close> of the word at one
  word address \<open>x\<close> of the region and nothing else, the final accumulator is the
  population count of \<open>d\<close>, the number of flipped bits: 0 for no flip, 1 for a flip of
  bit 0 alone.
\<close>

theorem single_corruption_count:
  assumes "no_wrap cfg"
    and "ADDR_FIRST cfg \<le> x" and "x < ADDR_LAST cfg"
    and "4 dvd (uint x - uint (ADDR_FIRST cfg))"
  shows "\<exists>m1. write_phase cfg [0..NB_CORES cfg - 1] mem = Some m1
     \<and> launch_cluster_task cfg (\<lambda>m. m(x := m x XOR d)) mem
         = Some (m1(x := m1 x XOR d), pulp_cnt d)
     \<and> unat (pulp_cnt d) = card {i. bit d i}
     \<and> pulp_cnt 0 = 0 \<and> pulp_cnt 1 = 1"
proof -
  let ?N = "NB_CORES cfg"
  from unit_addr_cover [OF assms] obtain c0 k0 where
    c0: "0 \<le> c0" "c0 < ?N" and r0: "in_region cfg c0 k0" and x: "x = unit_addr cfg c0 k0"
    by blast
  have rng: "\<forall>c\<in>set [0..?N - 1]. 0 \<le> c \<and> c < ?N" by (simp add: cores_in_range)
  from write_phase_mem [OF assms(1) rng, of mem] obtain m1 where
    ph: "write_phase cfg [0..?N - 1] mem = Some m1"
    and val: "\<And>c k. c \<in> set [0..?N - 1] \<Longrightarrow> in_region cfg c k \<Longrightarrow>
          m1 (unit_addr cfg c k) = (word_step ^^ Suc k) (DEFAULT_SEED cfg + word_of_int c)"
    by blast
  let ?m2 = "m1(x := m1 x XOR d)"
  let ?c1 = "?N - c0 - 1"
  have cnt: "run_test_read cfg c ?m2 = Some (if c = ?c1 then pulp_cnt d else 0)"
    if c: "0 \<le> c" "c < ?N" for c
  proof -
    let ?r = "?N - c - 1"
    let ?v = "\<lambda>k. (word_step ^^ Suc k) (DEFAULT_SEED cfg + word_of_int ?r)"
    from c have r: "0 \<le> ?r" "?r < ?N" by simp_all
    then have rin: "?r \<in> set [0..?N - 1]" by simp
    from unit_read_run [OF assms(1) c, of ?m2] obtain n where
      n: "\<forall>k. (k < n) = in_region cfg ?r k"
      and run: "run_test_read cfg c ?m2
        = Some (\<Sum>k<n. pulp_cnt (?v k XOR ?m2 (unit_addr cfg ?r k)))"
      by blast
    have each: "pulp_cnt (?v k XOR ?m2 (unit_addr cfg ?r k))
        = (if k = k0 then (if ?r = c0 then pulp_cnt d else 0) else 0)"
      if "k \<in> {..<n}" for k
    proof -
      from that n have rk: "in_region cfg ?r k" by simp
      have v: "m1 (unit_addr cfg ?r k) = ?v k" using rin rk by (rule val)
      show ?thesis
      proof (cases "unit_addr cfg ?r k = x")
        case True
        with unit_addr_inj [OF assms(1) r c0 rk r0] x have "?r = c0 \<and> k = k0" by simp
        with True v show ?thesis by (simp add: pulp_cnt_flip)
      next
        case False
        with x have "\<not> (?r = c0 \<and> k = k0)" by auto
        with False v show ?thesis by (auto simp: pulp_cnt_0)
      qed
    qed
    have "(\<Sum>k<n. pulp_cnt (?v k XOR ?m2 (unit_addr cfg ?r k)))
        = (\<Sum>k<n. if k = k0 then (if ?r = c0 then pulp_cnt d else 0) else 0)"
      by (rule sum.cong [OF refl each])
    also have "\<dots> = (if k0 \<in> {..<n} then (if ?r = c0 then pulp_cnt d else 0) else 0)"
      by (simp only: sum.delta [OF finite_lessThan])
    also have "\<dots> = (if c = ?c1 then pulp_cnt d else 0)"
    proof (cases "?r = c0")
      case True
      with r0 n have "k0 < n" by simp
      moreover from True have "c = ?c1" by simp
      ultimately show ?thesis using True by simp
    next
      case False
      then have "c \<noteq> ?c1" by auto
      with False show ?thesis by simp
    qed
    finally show ?thesis using run by simp
  qed
  then have "\<forall>c\<in>set [0..?N - 1]. run_test_read cfg c ?m2
      = Some ((\<lambda>c. if c = ?c1 then pulp_cnt d else 0) c)"
    by (simp add: cores_in_range)
  then have "read_phase cfg [0..?N - 1] ?m2 0
      = Some (0 + sum_list (map (\<lambda>c. if c = ?c1 then pulp_cnt d else 0) [0..?N - 1]))"
    by (rule read_phase_sum)
  moreover have "sum_list (map (\<lambda>c. if c = ?c1 then pulp_cnt d else 0) [0..?N - 1])
      = (if ?c1 \<in> set [0..?N - 1] then pulp_cnt d else 0)"
    by (rule sum_list_single) simp
  moreover from c0 have "?c1 \<in> set [0..?N - 1]" by simp
  ultimately have "read_phase cfg [0..?N - 1] ?m2 0 = Some (pulp_cnt d)" by simp
  with ph have "launch_cluster_task cfg (\<lambda>m. m(x := m x XOR d)) mem
         = Some (?m2, pulp_cnt d)"
    by (simp add: launch_team [OF assms(1)] team_run_def)
  with ph show ?thesis
    by (intro exI [of _ m1] conjI pulp_cnt_card pulp_cnt_0 pulp_cnt_1)
qed

theorem single_corruption_count_witness:
  "no_wrap scenario_config
   \<and> ADDR_FIRST scenario_config \<le> 0x10008010
   \<and> 0x10008010 < ADDR_LAST scenario_config
   \<and> 4 dvd (uint (0x10008010 :: u32) - uint (ADDR_FIRST scenario_config))
   \<and> (\<exists>m1. write_phase scenario_config [0..NB_CORES scenario_config - 1] zero_memory = Some m1
     \<and> launch_cluster_task scenario_config (\<lambda>m. m(0x10008010 := m 0x10008010 XOR 1)) zero_memory
         = Some (m1(0x10008010 := m1 0x10008010 XOR 1), pulp_cnt 1)
     \<and> unat (pulp_cnt 1) = card {i. bit (1 :: u32) i}
     \<and> pulp_cnt 0 = 0 \<and> pulp_cnt 1 = 1)"
proof -
  have a: "ADDR_FIRST scenario_config \<le> 0x10008010"
    and b: "0x10008010 < ADDR_LAST scenario_config"
    and c: "4 dvd (uint (0x10008010 :: u32) - uint (ADDR_FIRST scenario_config))"
    by (simp_all add: scenario_config_def)
  from single_corruption_count [OF no_wrap_scenario a b c, of zero_memory 1]
    no_wrap_scenario a b c
  show ?thesis by (intro conjI)
qed

text \<open>
  C8 fails on the program: nothing checks the configuration. A region of 4 words under 8
  cores does not meet the conditions of the specification, yet the team runs (core 0
  stores its first generator value at the first address) and the launch returns the
  count 0, the value of a passed test.
\<close>

theorem config_not_rejected_counterexample:
  "\<not> valid_config undersized_config
   \<and> map_option snd (launch_cluster_task undersized_config id zero_memory) = Some 0
   \<and> map_option (word_at 0x10008000) (launch_cluster_task undersized_config id zero_memory)
       = Some 0xDAB066B3"
proof (intro conjI)
  show "\<not> valid_config undersized_config"
    by (simp add: valid_config_def undersized_config_def)
  show "map_option snd (launch_cluster_task undersized_config id zero_memory) = Some 0"
    by code_simp
  show "map_option (word_at 0x10008000) (launch_cluster_task undersized_config id zero_memory)
       = Some 0xDAB066B3"
    by code_simp
qed

text \<open>
  C8, amended. The configuration is fixed at compile time and never checked; the launch
  has the mismatch count as its only outcome. The values the source defines meet the
  three conditions of the specification. For every setting with at least one core and
  no wrap-around, whether its bounds are aligned or not and whether its region holds
  \<open>NB_CORES\<close> words or not, the launch runs the team: each unit's words are in memory
  after the write phase, each core's read loop returns its count, and the launch returns
  the memory read together with the sum of these counts. With \<open>NB_CORES = 0\<close> and a
  region that is not empty nothing is rejected either: the write loop of core 0 never
  returns, and so neither does any team with core 0, nor the launch.
\<close>

theorem launch_without_validation:
  "valid_config default_config
   \<and> (no_wrap cfg \<longrightarrow>
        (\<exists>m1 cnt. write_phase cfg [0..NB_CORES cfg - 1] mem = Some m1
          \<and> (\<forall>c k. 0 \<le> c \<and> c < NB_CORES cfg \<and> in_region cfg c k \<longrightarrow>
                Some (m1 (unit_addr cfg c k))
                  = lfsr_advance (Suc k) (DEFAULT_SEED cfg + word_of_int c))
          \<and> (\<forall>c. 0 \<le> c \<and> c < NB_CORES cfg \<longrightarrow>
                run_test_read cfg c (fault m1) = Some (cnt c))
          \<and> launch_cluster_task cfg fault mem
              = Some (fault m1, sum_list (map cnt [0..NB_CORES cfg - 1]))))
   \<and> (NB_CORES cfg = 0 \<and> ADDR_FIRST cfg < ADDR_LAST cfg \<longrightarrow>
        run_test_write cfg 0 mem = None
        \<and> (\<forall>ids. 0 \<in> set ids \<longrightarrow> team_run cfg ids fault mem = None)
        \<and> launch_cluster_task cfg fault mem = None)"
proof (intro conjI impI)
  show "valid_config default_config"
    by (simp add: valid_config_def default_config_def)
next
  assume "no_wrap cfg"
  then show "\<exists>m1 cnt. write_phase cfg [0..NB_CORES cfg - 1] mem = Some m1
          \<and> (\<forall>c k. 0 \<le> c \<and> c < NB_CORES cfg \<and> in_region cfg c k \<longrightarrow>
                Some (m1 (unit_addr cfg c k))
                  = lfsr_advance (Suc k) (DEFAULT_SEED cfg + word_of_int c))
          \<and> (\<forall>c. 0 \<le> c \<and> c < NB_CORES cfg \<longrightarrow>
                run_test_read cfg c (fault m1) = Some (cnt c))
          \<and> launch_cluster_task cfg fault mem
              = Some (fault m1, sum_list (map cnt [0..NB_CORES cfg - 1]))"
    by (rule launch_result)
next
  assume z: "NB_CORES cfg = 0 \<and> ADDR_FIRST cfg < ADDR_LAST cfg"
  then have "ADDR_FIRST cfg + word_of_int (0 * 4) < ADDR_LAST cfg" by simp
  with z show "run_test_write cfg 0 mem = None"
    by (intro run_test_write_zero_units) simp_all
next
  assume z: "NB_CORES cfg = 0 \<and> ADDR_FIRST cfg < ADDR_LAST cfg"
  then show "\<forall>ids. 0 \<in> set ids \<longrightarrow> team_run cfg ids fault mem = None"
    by (intro allI impI team_run_zero_units) simp_all
next
  assume z: "NB_CORES cfg = 0 \<and> ADDR_FIRST cfg < ADDR_LAST cfg"
  then have "cluster_cores cfg = [0]" by (simp add: cluster_cores_def upto.simps)
  then have "0 \<in> set (cluster_cores cfg)" by simp
  with z show "launch_cluster_task cfg fault mem = None"
    unfolding launch_cluster_task_def by (intro team_run_zero_units) simp_all
qed

theorem launch_without_validation_witness:
  "valid_config default_config
   \<and> no_wrap undersized_config
   \<and> (\<exists>m1 cnt.
          write_phase undersized_config [0..NB_CORES undersized_config - 1] zero_memory = Some m1
        \<and> (\<forall>c k. 0 \<le> c \<and> c < NB_CORES undersized_config \<and> in_region undersized_config c k \<longrightarrow>
              Some (m1 (unit_addr undersized_config c k))
                = lfsr_advance (Suc k) (DEFAULT_SEED undersized_config + word_of_int c))
        \<and> (\<forall>c. 0 \<le> c \<and> c < NB_CORES undersized_config \<longrightarrow>
              run_test_read undersized_config c (id m1) = Some (cnt c))
        \<and> launch_cluster_task undersized_config id zero_memory
            = Some (id m1, sum_list (map cnt [0..NB_CORES undersized_config - 1])))
   \<and> NB_CORES zero_units_config = 0
   \<and> ADDR_FIRST zero_units_config < ADDR_LAST zero_units_config
   \<and> run_test_write zero_units_config 0 zero_memory = None
   \<and> (0 :: int) \<in> set [0, 1, 2, 3, 4, 5, 6, 7]
   \<and> team_run zero_units_config [0, 1, 2, 3, 4, 5, 6, 7] id zero_memory = None
   \<and> launch_cluster_task zero_units_config id zero_memory = None"
proof -
  have z: "NB_CORES zero_units_config = 0"
    "ADDR_FIRST zero_units_config < ADDR_LAST zero_units_config"
    by (simp_all add: zero_units_config_def)
  have t: "(0 :: int) \<in> set [0, 1, 2, 3, 4, 5, 6, 7]" by simp
  from launch_without_validation [of undersized_config zero_memory id]
    launch_without_validation [of zero_units_config zero_memory id]
    no_wrap_undersized z t
  show ?thesis by blast
qed

end
